theory Spec2Isabelle
  imports Complex_Main "HOL-Library.Sublist" "HOL-Library.Monad_Syntax" "HOL-Library.Log_Nat"
begin

section \<open>Python strings\<close>

text \<open>
  A Python \<open>str\<close> is modelled as a \<open>string\<close>; a \<open>char\<close> stands for the code point
  of the same number, so the model covers the texts whose code points lie below 256.
  On that range \<open>str.lower\<close> changes exactly the letters A-Z and the upper-case
  letters U+00C0..U+00DE (without the multiplication sign U+00D7), \<open>str.isspace\<close> and the
  regular expression class \<open>\s\<close> hold for U+0009..U+000D, U+001C..U+0020, U+0085 and
  U+00A0, and \<open>\d\<close> holds for the digits 0-9.
\<close>

definition char_le :: "char \<Rightarrow> char \<Rightarrow> bool" where
  "char_le a b = ((of_char a :: nat) \<le> of_char b)"

definition in_range :: "char \<Rightarrow> char \<Rightarrow> char \<Rightarrow> bool" where
  "in_range lo hi c = (char_le lo c \<and> char_le c hi)"

definition py_isupper :: "char \<Rightarrow> bool" where
  "py_isupper c = (in_range CHR ''A'' CHR ''Z'' c \<or>
                   (in_range (CHR 0xC0) (CHR 0xDE) c \<and> c \<noteq> CHR 0xD7))"

definition py_lower_char :: "char \<Rightarrow> char" where
  "py_lower_char c = (if py_isupper c then char_of (of_char c + (32::nat)) else c)"

definition py_lower :: "string \<Rightarrow> string" where
  "py_lower s = map py_lower_char s"

definition py_isspace :: "char \<Rightarrow> bool" where
  "py_isspace c = (in_range (CHR 0x09) (CHR 0x0D) c \<or> in_range (CHR 0x1C) (CHR 0x20) c \<or>
                   c = CHR 0x85 \<or> c = CHR 0xA0)"

definition py_isdigit :: "char \<Rightarrow> bool" where
  "py_isdigit c = in_range CHR ''0'' CHR ''9'' c"

definition py_strip :: "string \<Rightarrow> string" where
  "py_strip s = rev (dropWhile py_isspace (rev (dropWhile py_isspace s)))"

text \<open>\<open>needle in haystack\<close> on strings: the needle occurs as a contiguous piece.\<close>

definition py_in :: "string \<Rightarrow> string \<Rightarrow> bool" where
  "py_in needle haystack = sublist needle haystack"

text \<open>\<open>len(s.split())\<close>: the number of maximal runs of non-whitespace characters.\<close>

fun count_words :: "bool \<Rightarrow> string \<Rightarrow> nat" where
  "count_words in_word [] = 0"
| "count_words in_word (c # cs) =
     (if py_isspace c then count_words False cs
      else if in_word then count_words True cs
      else Suc (count_words True cs))"

definition py_split_len :: "string \<Rightarrow> nat" where
  "py_split_len s = count_words False s"

text \<open>
  Comparing two code points bit by bit, lowest bit first; \<open>acc\<close> is the answer for the
  bits already seen. This is the code equation of \<open>char_le\<close>.
\<close>

fun bits_le :: "bool \<Rightarrow> bool list \<Rightarrow> bool list \<Rightarrow> bool" where
  "bits_le acc (a # as) (b # bs) = bits_le (if a = b then acc else b) as bs"
| "bits_le acc as bs = acc"

section \<open>Regular expressions\<close>

text \<open>
  The patterns of the source are written as terms of \<open>re\<close> and run by a backtracking
  matcher with the priorities of Python's \<open>re\<close> module: a quantifier takes as many
  repetitions as it can before it gives one back, an alternation tries its branches from
  left to right, and the first way to match the whole pattern wins. The matcher is in
  continuation style: \<open>k\<close> is what remains to be matched after the current piece.
  \<open>Grp\<close> is capturing group 1, the only group a replacement of the source refers to.
\<close>

datatype re =
    Sym "char \<Rightarrow> bool"
  | Eps
  | Cat re re
  | Alt re re
  | Star re
  | Grp re
  | Bol
  | Eol

record mstate =
  at_start :: bool
  rest :: string
  group1 :: "string option"

primrec star_loop ::
  "(mstate \<Rightarrow> (mstate \<Rightarrow> mstate option) \<Rightarrow> mstate option) \<Rightarrow> nat \<Rightarrow>
     mstate \<Rightarrow> (mstate \<Rightarrow> mstate option) \<Rightarrow> mstate option" where
  "star_loop m 0 st k = k st"
| "star_loop m (Suc n) st k =
     (case m st (\<lambda>st'. if length (rest st') < length (rest st)
                         then star_loop m n st' k else None) of
        Some r \<Rightarrow> Some r
      | None \<Rightarrow> k st)"

primrec re_match :: "re \<Rightarrow> mstate \<Rightarrow> (mstate \<Rightarrow> mstate option) \<Rightarrow> mstate option" where
  "re_match (Sym p) st k =
     (case rest st of
        [] \<Rightarrow> None
      | c # cs \<Rightarrow> if p c then k (st\<lparr>at_start := False, rest := cs\<rparr>) else None)"
| "re_match Eps st k = k st"
| "re_match (Cat r1 r2) st k = re_match r1 st (\<lambda>st'. re_match r2 st' k)"
| "re_match (Alt r1 r2) st k =
     (case re_match r1 st k of Some r \<Rightarrow> Some r | None \<Rightarrow> re_match r2 st k)"
| "re_match (Star r) st k = star_loop (re_match r) (length (rest st)) st k"
| "re_match (Grp r) st k =
     re_match r st
       (\<lambda>st'. k (st'\<lparr>group1 := Some (take (length (rest st) - length (rest st')) (rest st))\<rparr>))"
| "re_match Bol st k = (if at_start st then k st else None)"
| "re_match Eol st k = (if rest st = [] \<or> rest st = [CHR 0x0A] then k st else None)"

definition Plus :: "re \<Rightarrow> re" where
  "Plus r = Cat r (Star r)"

definition Opt :: "re \<Rightarrow> re" where
  "Opt r = Alt r Eps"

primrec Seq :: "re list \<Rightarrow> re" where
  "Seq [] = Eps"
| "Seq (r # rs) = Cat r (Seq rs)"

primrec Rep :: "nat \<Rightarrow> re \<Rightarrow> re" where
  "Rep 0 r = Eps"
| "Rep (Suc n) r = Cat r (Rep n r)"

primrec Alts :: "re list \<Rightarrow> re" where
  "Alts [] = Sym (\<lambda>x. False)"
| "Alts (r # rs) = (if rs = [] then r else Alt r (Alts rs))"

definition Chr :: "char \<Rightarrow> re" where
  "Chr c = Sym (\<lambda>x. x = c)"

text \<open>A literal character under \<open>re.IGNORECASE\<close>.\<close>

definition Chr_i :: "char \<Rightarrow> re" where
  "Chr_i c = Sym (\<lambda>x. py_lower_char x = py_lower_char c)"

definition Str :: "string \<Rightarrow> re" where
  "Str s = Seq (map Chr s)"

definition Str_i :: "string \<Rightarrow> re" where
  "Str_i s = Seq (map Chr_i s)"

definition One_of :: "string \<Rightarrow> re" where
  "One_of cs = Sym (\<lambda>x. x \<in> set cs)"

definition None_of :: "string \<Rightarrow> re" where
  "None_of cs = Sym (\<lambda>x. x \<notin> set cs)"

definition digit :: re where
  "digit = Sym py_isdigit"

definition space :: re where
  "space = Sym py_isspace"

text \<open>The dot without \<open>re.DOTALL\<close>: any character but the newline.\<close>

definition dot :: re where
  "dot = Sym (\<lambda>x. x \<noteq> CHR 0x0A)"

datatype repl = Const string | Group1

definition expand :: "repl \<Rightarrow> mstate \<Rightarrow> string" where
  "expand rp st =
     (case rp of
        Const s \<Rightarrow> s
      | Group1 \<Rightarrow> (case group1 st of None \<Rightarrow> [] | Some g \<Rightarrow> g))"

text \<open>
  One attempt to match at the current position of the subject; \<open>b\<close> says that the
  position is the start of the subject, \<open>must_advance\<close> that an empty match is refused
  (\<open>re.sub\<close> asks for that right after an empty match).
\<close>

definition match_at :: "re \<Rightarrow> bool \<Rightarrow> bool \<Rightarrow> string \<Rightarrow> mstate option" where
  "match_at r b must_advance s =
     re_match r \<lparr>at_start = b, rest = s, group1 = None\<rparr>
       (\<lambda>st. if must_advance \<and> length (rest st) = length s then None else Some st)"

text \<open>
  \<open>re.sub\<close>: the subject is scanned from left to right, every match found is replaced
  and the scan goes on behind it; a character at which nothing matches is copied.
  The counter says how many characters of the last match are still to be skipped.
\<close>

fun sub_from :: "re \<Rightarrow> repl \<Rightarrow> bool \<Rightarrow> nat \<Rightarrow> string \<Rightarrow> string" where
  "sub_from r rp b (Suc n) [] = []"
| "sub_from r rp b (Suc n) (c # cs) = sub_from r rp False n cs"
| "sub_from r rp b 0 [] =
     (case match_at r b False [] of None \<Rightarrow> [] | Some st \<Rightarrow> expand rp st)"
| "sub_from r rp b 0 (c # cs) =
     (case match_at r b False (c # cs) of
        None \<Rightarrow> c # sub_from r rp False 0 cs
      | Some st \<Rightarrow>
          (if length (rest st) < length (c # cs)
           then expand rp st @ sub_from r rp False (length cs - length (rest st)) cs
           else expand rp st @
             (case match_at r b True (c # cs) of
                None \<Rightarrow> c # sub_from r rp False 0 cs
              | Some st' \<Rightarrow>
                  expand rp st' @ sub_from r rp False (length cs - length (rest st')) cs)))"

definition re_sub :: "re \<Rightarrow> repl \<Rightarrow> string \<Rightarrow> string" where
  "re_sub r rp s = sub_from r rp True 0 s"

text \<open>
  Two properties that can be read off a pattern. \<open>must_leave A r\<close>: every match of \<open>r\<close>
  takes a character outside \<open>A\<close>, so \<open>r\<close> matches nowhere in a text made of characters
  of \<open>A\<close>. \<open>only_eats w r\<close>: every character a match of \<open>r\<close> takes is in \<open>w\<close>.
\<close>

primrec must_leave :: "(char \<Rightarrow> bool) \<Rightarrow> re \<Rightarrow> bool" where
  "must_leave A (Sym p) = (\<forall>c. A c \<longrightarrow> \<not> p c)"
| "must_leave A Eps = False"
| "must_leave A (Cat r1 r2) = (must_leave A r1 \<or> must_leave A r2)"
| "must_leave A (Alt r1 r2) = (must_leave A r1 \<and> must_leave A r2)"
| "must_leave A (Star r) = False"
| "must_leave A (Grp r) = must_leave A r"
| "must_leave A Bol = False"
| "must_leave A Eol = False"

primrec only_eats :: "(char \<Rightarrow> bool) \<Rightarrow> re \<Rightarrow> bool" where
  "only_eats w (Sym p) = (\<forall>c. p c \<longrightarrow> w c)"
| "only_eats w Eps = True"
| "only_eats w (Cat r1 r2) = (only_eats w r1 \<and> only_eats w r2)"
| "only_eats w (Alt r1 r2) = (only_eats w r1 \<and> only_eats w r2)"
| "only_eats w (Star r) = only_eats w r"
| "only_eats w (Grp r) = only_eats w r"
| "only_eats w Bol = True"
| "only_eats w Eol = True"

section \<open>The text normaliser\<close>

text \<open>
  \<open>main.py\<close> defines \<open>clean_reddit_text\<close> twice; the second definition replaces the
  first when the module is loaded, so it is the one every caller runs, and the one
  modelled here. Its patterns, in the order of the source:
\<close>

definition ascii_letter :: "char \<Rightarrow> bool" where
  "ascii_letter x = (in_range CHR ''a'' CHR ''z'' x \<or> in_range CHR ''A'' CHR ''Z'' x)"

definition hex_digit :: "char \<Rightarrow> bool" where
  "hex_digit x = (in_range CHR ''0'' CHR ''9'' x \<or> in_range CHR ''a'' CHR ''f'' x \<or>
                  in_range CHR ''A'' CHR ''F'' x)"

definition url_re :: re where
  "url_re =
     Seq [Str ''http'', Opt (One_of ''s''), Str ''://'',
          Plus (Alts [Sym ascii_letter,
                      Sym (in_range CHR ''0'' CHR ''9''),
                      Sym (\<lambda>x. in_range CHR ''$'' CHR ''_'' x \<or> x \<in> set ''@.&+''),
                      One_of [CHR ''!'', CHR ''*'', CHR 0x5C, CHR ''('', CHR 0x5C, CHR '')'', CHR '',''],
                      Seq [Chr CHR ''%'', Sym hex_digit, Sym hex_digit]])]"

definition link_re :: re where
  "link_re =
     Seq [Chr CHR ''['', Grp (Plus (None_of '']'')), Chr CHR '']'',
          Chr CHR ''('', Plus (None_of '')''), Chr CHR '')'']"

definition bold_re :: re where
  "bold_re = Seq [Str ''**'', Grp (Plus (None_of ''*'')), Str ''**'']"

definition italic_re :: re where
  "italic_re = Seq [Str ''*'', Grp (Plus (None_of ''*'')), Str ''*'']"

definition strike_re :: re where
  "strike_re = Seq [Str ''~~'', Grp (Plus (None_of ''~'')), Str ''~~'']"

definition code_re :: re where
  "code_re = Seq [Str ''`'', Grp (Plus (None_of ''`'')), Str ''`'']"

definition newlines_re :: re where
  "newlines_re = Plus (Chr (CHR 0x0A))"

definition spaces_re :: re where
  "spaces_re = Plus space"

text \<open>
  The character class of the emoji pattern, with the ranges of the source. The lowest
  is U+24C2, so no character of the model is in it.
\<close>

definition emoji_char :: "char \<Rightarrow> bool" where
  "emoji_char c =
     (let n = (of_char c :: nat)
      in (0x1F600 \<le> n \<and> n \<le> 0x1F64F) \<or> (0x1F300 \<le> n \<and> n \<le> 0x1F5FF) \<or>
         (0x1F680 \<le> n \<and> n \<le> 0x1F6FF) \<or> (0x1F1E0 \<le> n \<and> n \<le> 0x1F1FF) \<or>
         (0x2702 \<le> n \<and> n \<le> 0x27B0) \<or> (0x24C2 \<le> n \<and> n \<le> 0x1F251))"

definition emoji_re :: re where
  "emoji_re = Plus (Sym emoji_char)"

definition iso_timestamp_re :: re where
  "iso_timestamp_re =
     Seq [Rep 4 digit, Chr CHR ''-'', Rep 2 digit, Chr CHR ''-'', Rep 2 digit, Chr CHR ''T'',
          Rep 2 digit, Chr CHR '':'', Rep 2 digit, Chr CHR '':'', Rep 2 digit]"

definition clock_re :: re where
  "clock_re =
     Seq [digit, Opt digit, Chr CHR '':'', Rep 2 digit,
          Opt (Grp (Seq [Chr CHR '':'', Rep 2 digit])), Star space,
          Alts [Str ''AM'', Str ''PM'', Str ''am'', Str ''pm'']]"

definition timezone_re :: re where
  "timezone_re = Alts [Str ''UTC'', Str ''GMT'', Str ''EST'', Str ''PST'', Str ''CST'', Str ''MST'']"

definition prefix_re :: re where
  "prefix_re =
     Seq [Bol, Grp (Alts [Str_i ''UPDATE'', Str_i ''EDIT'', Str_i ''BREAKING'', Str_i ''URGENT'']),
          Chr_i CHR '':'', Star space]"

definition crosspost_re :: re where
  "crosspost_re =
     Seq [Star space, Grp (Alts [Str_i ''x-post'', Str_i ''crosspost'', Str_i ''cross-post'']),
          Star space, Star dot, Eol]"

text \<open>The value of \<open>full_text\<close> after \<open>full_text = full_text.strip()\<close>.\<close>

definition stripped_text :: "string \<Rightarrow> string \<Rightarrow> string" where
  "stripped_text title selftext =
     (let full_text = title;
          full_text = (if selftext \<noteq> [] \<and> py_strip selftext \<noteq> []
                       then full_text @ '' '' @ selftext else full_text);
          full_text = re_sub url_re (Const []) full_text;
          full_text = re_sub link_re Group1 full_text;
          full_text = re_sub bold_re Group1 full_text;
          full_text = re_sub italic_re Group1 full_text;
          full_text = re_sub strike_re Group1 full_text;
          full_text = re_sub code_re Group1 full_text;
          full_text = re_sub newlines_re (Const '' '') full_text;
          full_text = re_sub spaces_re (Const '' '') full_text;
          full_text = re_sub emoji_re (Const []) full_text;
          full_text = re_sub iso_timestamp_re (Const []) full_text;
          full_text = re_sub clock_re (Const []) full_text;
          full_text = re_sub timezone_re (Const []) full_text;
          full_text = re_sub prefix_re (Const []) full_text;
          full_text = re_sub crosspost_re (Const []) full_text
      in py_strip full_text)"

text \<open>
  The function has no \<open>try\<close>: nothing in it raises on strings, and it has no path that
  returns the title as it came.
\<close>

definition clean_reddit_text :: "string \<Rightarrow> string \<Rightarrow> string" where
  "clean_reddit_text title selftext =
     (let full_text = stripped_text title selftext
      in if full_text \<noteq> [] \<and> last full_text \<notin> set ''.!?''
         then full_text @ ''.'' else full_text)"

section \<open>The category detector\<close>

definition categories :: "(string \<times> string list) list" where
  "categories =
     [(''earthquake'', [''earthquake'', ''seismic'', ''tremor'', ''quake'', ''magnitude'', ''richter'', ''epicenter'']),
      (''flood'', [''flood'', ''flooding'', ''deluge'', ''inundation'', ''overflow'', ''dam burst'', ''levee'']),
      (''fire'', [''wildfire'', ''forest fire'', ''bushfire'', ''fire'', ''blaze'', ''inferno'', ''burn'']),
      (''storm'', [''hurricane'', ''typhoon'', ''cyclone'', ''tornado'', ''storm'', ''tempest'', ''gale'']),
      (''weather'', [''heatwave'', ''blizzard'', ''drought'', ''extreme weather'', ''severe weather'']),
      (''volcanic'', [''volcano'', ''volcanic'', ''eruption'', ''lava'', ''ash cloud'', ''magma'']),
      (''landslide'', [''landslide'', ''mudslide'', ''avalanche'', ''rockslide'', ''debris flow'']),
      (''tsunami'', [''tsunami'', ''tidal wave'', ''seismic wave''])]"

fun category_loop :: "(string \<times> string list) list \<Rightarrow> string \<Rightarrow> string" where
  "category_loop [] text_lower = ''general''"
| "category_loop ((category, keywords) # items) text_lower =
     (if list_ex (\<lambda>keyword. py_in keyword text_lower) keywords then category
      else category_loop items text_lower)"

definition detect_disaster_category :: "string \<Rightarrow> string" where
  "detect_disaster_category text = category_loop categories (py_lower text)"

definition ci_substring :: "string \<Rightarrow> string \<Rightarrow> bool" where
  "ci_substring keyword text =
     list_ex (\<lambda>piece. py_lower piece = py_lower keyword) (sublists text)"

definition first_matching_category :: "string \<Rightarrow> string" where
  "first_matching_category text =
     (case find (\<lambda>(category, keywords). list_ex (\<lambda>keyword. ci_substring keyword text) keywords)
             categories of
        None \<Rightarrow> ''general''
      | Some (category, keywords) \<Rightarrow> category)"

section \<open>Python floats\<close>

text \<open>
  A Python \<open>float\<close> is an IEEE 754 binary64 number. The model keeps its value as a
  rational and rounds the exact result of every operation to the nearest number with a
  significand of 53 bits, ties to the even significand, as the hardware does. The range of
  the exponent is not limited: no operation of the classifier comes near the largest or
  the smallest binary64 number.
\<close>

text \<open>Rounding to the nearest integer, ties to even.\<close>

definition rne :: "rat \<Rightarrow> int" where
  "rne y =
     (let f = \<lfloor>y\<rfloor>; r = y - of_int f
      in if r < 1 / 2 then f else if 1 / 2 < r then f + 1 else if even f then f else f + 1)"

text \<open>The exponent \<open>e\<close> of a positive number: \<open>2 ^ e \<le> x < 2 ^ (e + 1)\<close>.\<close>

definition expo :: "rat \<Rightarrow> int" where
  "expo x =
     (let (p, q) = quotient_of x; e = bitlen p - bitlen q
      in if 2 powi e \<le> x then e else e - 1)"

text \<open>The unit in the last place of the 53-bit significand.\<close>

definition ulp :: "rat \<Rightarrow> rat" where
  "ulp x = 2 powi (expo x - 52)"

text \<open>\<open>fl x\<close> is the float nearest to \<open>x\<close>; a literal such as \<open>0.70\<close> is \<open>fl (70 / 100)\<close>.\<close>

definition fl :: "rat \<Rightarrow> rat" where
  "fl x =
     (if x = 0 then 0
      else sgn x * (of_int (rne (\<bar>x\<bar> / ulp \<bar>x\<bar>)) * ulp \<bar>x\<bar>))"

definition fadd :: "rat \<Rightarrow> rat \<Rightarrow> rat" where
  "fadd x y = fl (x + y)"

definition fmul :: "rat \<Rightarrow> rat \<Rightarrow> rat" where
  "fmul x y = fl (x * y)"

text \<open>\<open>m / n\<close> on two integers: the quotient, correctly rounded.\<close>

definition int_truediv :: "nat \<Rightarrow> nat \<Rightarrow> rat" where
  "int_truediv m n = fl (of_nat m / of_nat n)"

text \<open>An integer operand of a float operation is converted first.\<close>

definition float_of_nat :: "nat \<Rightarrow> rat" where
  "float_of_nat n = fl (of_nat n)"

section \<open>The keyword classifier\<close>

text \<open>
  A classification is the dictionary \<open>{"label": ..., "confidence": ...}\<close>; the
  confidence is a float. \<open>random.random()\<close> is an input \<open>rnd\<close> of the model, a float in
  \<open>[0, 1)\<close>; every path through the function draws at most one number. The argument is
  \<open>Some\<close> string, or \<open>None\<close> for Python's \<open>None\<close>, on which \<open>text.lower()\<close> raises
  and the handler of the function answers with the label \<open>unknown\<close>; nothing in the
  body raises on a string.
\<close>

record classification =
  label :: string
  confidence :: rat

definition verified_keywords :: "string list" where
  "verified_keywords =
     [''official'', ''usgs'', ''confirmed'', ''breaking'', ''emergency services'',
      ''authorities'', ''government'', ''fire department'', ''police'', ''fema'',
      ''national weather service'', ''earthquake'', ''magnitude'', ''evacuation'',
      ''nws'', ''noaa'', ''red cross'', ''emergency management'', ''disaster response'',
      ''first responders'', ''rescue teams'', ''meteorologist'', ''seismologist'',
      ''issued warning'', ''alert issued'', ''official statement'', ''press release'']"

definition rumor_keywords :: "string list" where
  "rumor_keywords =
     [''fake'', ''rumor'', ''unconfirmed'', ''allegedly'', ''reports suggest'',
      ''conspiracy'', ''alien'', ''fabricated'', ''false information'',
      ''hoax'', ''misleading'', ''debunked'', ''unverified'', ''speculation'',
      ''claims without evidence'', ''social media reports'', ''viral video'',
      ''end times'', ''apocalypse'', ''government cover-up'']"

definition official_sources :: "string list" where
  "official_sources = [''official'', ''government'', ''emergency'']"

definition news_indicators :: "string list" where
  "news_indicators = [''breaking'', ''reported'', ''according to'', ''sources say'', ''confirmed'']"

definition uncertainty_indicators :: "string list" where
  "uncertainty_indicators = [''might'', ''could'', ''possibly'', ''allegedly'', ''reportedly'']"

text \<open>\<open>sum(1 for keyword in keywords if keyword in text_lower)\<close>\<close>

definition count_matches :: "string list \<Rightarrow> string \<Rightarrow> nat" where
  "count_matches keywords text_lower = length (filter (\<lambda>keyword. py_in keyword text_lower) keywords)"

definition verified_score :: "string \<Rightarrow> nat" where
  "verified_score text = count_matches verified_keywords (py_lower text)"

definition rumor_score :: "string \<Rightarrow> nat" where
  "rumor_score text = count_matches rumor_keywords (py_lower text)"

definition has_official_source :: "string \<Rightarrow> bool" where
  "has_official_source text = list_ex (\<lambda>source. py_in source (py_lower text)) official_sources"

definition news_score :: "string \<Rightarrow> nat" where
  "news_score text = count_matches news_indicators (py_lower text)"

definition uncertainty_score :: "string \<Rightarrow> nat" where
  "uncertainty_score text = count_matches uncertainty_indicators (py_lower text)"

definition word_count :: "string \<Rightarrow> nat" where
  "word_count text = py_split_len (py_lower text)"

definition classify_text_keywords :: "rat \<Rightarrow> string option \<Rightarrow> classification" where
  "classify_text_keywords rnd text_arg =
     (case text_arg of
        None \<Rightarrow> \<lparr>label = ''unknown'', confidence = fl (5 / 10)\<rparr>
      | Some text \<Rightarrow>
          if verified_score text + rumor_score text = 0 then
            (if has_official_source text then
               \<lparr>label = ''verified'',
                confidence = fadd (fl (70 / 100)) (fmul rnd (fl (20 / 100)))\<rparr>
             else if news_score text > uncertainty_score text then
               (let base_confidence =
                      fadd (fl (55 / 100)) (fmul (float_of_nat (news_score text)) (fl (5 / 100)));
                    random_variation = fmul rnd (fl (10 / 100))
                in \<lparr>label = ''verified'',
                    confidence = min (fl (85 / 100)) (fadd base_confidence random_variation)\<rparr>)
             else
               (let base_confidence = fadd (fl (45 / 100)) (fmul rnd (fl (15 / 100)));
                    confidence =
                      (if uncertainty_score text > 0
                       then fadd base_confidence
                              (fmul (float_of_nat (uncertainty_score text)) (fl (3 / 100)))
                       else fadd base_confidence (int_truediv (word_count text) 1000))
                in \<lparr>label = ''rumor'',
                    confidence = min (fl (75 / 100)) (max (fl (40 / 100)) confidence)\<rparr>))
          else if verified_score text > rumor_score text then
            (let base_confidence =
                   fadd (fl (60 / 100)) (fmul (float_of_nat (verified_score text)) (fl (8 / 100)));
                 text_length_bonus = min (fl (15 / 100)) (int_truediv (word_count text) 200)
             in \<lparr>label = ''verified'',
                 confidence = min (fl (95 / 100)) (fadd base_confidence text_length_bonus)\<rparr>)
          else if rumor_score text > verified_score text then
            (let base_confidence =
                   fadd (fl (55 / 100)) (fmul (float_of_nat (rumor_score text)) (fl (6 / 100)));
                 uncertainty_penalty =
                   min (fl (10 / 100)) (fmul (float_of_nat (rumor_score text)) (fl (3 / 100)))
             in \<lparr>label = ''rumor'',
                 confidence = min (fl (90 / 100)) (fadd base_confidence uncertainty_penalty)\<rparr>)
          else \<lparr>label = ''rumor'', confidence = fadd (fl (50 / 100)) (fmul rnd (fl (15 / 100)))\<rparr>)"

section \<open>The classifier and the loaded artifacts\<close>

text \<open>
  The module keeps the loaded artifacts in the globals \<open>ensemble_model\<close> and
  \<open>vectorizer\<close>, and the scheduler's task in \<open>background_task\<close>. \<open>joblib.load\<close> is the
  file system as seen at the time of a call: a function from paths to the object loaded,
  \<open>None\<close> where loading raises. What a loaded object computes belongs to the libraries
  and is a parameter: \<open>transform\<close>, \<open>predict\<close> and \<open>predict_proba\<close>, each \<open>None\<close> where
  the call raises.
\<close>

datatype task = Hourly_update_task

record 'a globals =
  ensemble_model :: "'a option"
  vectorizer :: "'a option"
  background_task :: "task option"

record ('a, 'f) ml_library =
  transform :: "'a \<Rightarrow> string \<Rightarrow> 'f option"
  predict :: "'a \<Rightarrow> 'f \<Rightarrow> int option"
  predict_proba :: "'a \<Rightarrow> 'f \<Rightarrow> rat list option"

definition model_paths :: "string list" where
  "model_paths = [''models/LinearSVM.joblib'', ''./models/LinearSVM.joblib'', ''../models/LinearSVM.joblib'']"

definition vectorizer_paths :: "string list" where
  "vectorizer_paths =
     [''models/tfidf_vectorizer.joblib'', ''./models/tfidf_vectorizer.joblib'',
      ''../models/tfidf_vectorizer.joblib'']"

text \<open>The loop over candidate paths: the first path that loads ends it.\<close>

fun load_first :: "(string \<Rightarrow> 'a option) \<Rightarrow> string list \<Rightarrow> 'a option" where
  "load_first joblib_load [] = None"
| "load_first joblib_load (path # paths) =
     (case joblib_load path of
        Some obj \<Rightarrow> Some obj
      | None \<Rightarrow> load_first joblib_load paths)"

text \<open>
  \<open>startup_tasks\<close>: the migration and the test of the Reddit client only write to the
  log. The statement that would create the scheduler's task is commented out in the
  source, so \<open>background_task\<close> keeps its initial value \<open>None\<close>.
\<close>

definition initial_globals :: "'a globals" where
  "initial_globals = \<lparr>ensemble_model = None, vectorizer = None, background_task = None\<rparr>"

definition startup_tasks :: "(string \<Rightarrow> 'a option) \<Rightarrow> 'a globals" where
  "startup_tasks joblib_load =
     initial_globals
       \<lparr>ensemble_model := load_first joblib_load model_paths,
        vectorizer := load_first joblib_load vectorizer_paths\<rparr>"

datatype path_taken = Model_path | Keyword_fallback

text \<open>
  The part of \<open>classify_text\<close> inside the inner \<open>try\<close>: \<open>None\<close> when it raises.
\<close>

definition svm_classification ::
  "('a, 'f) ml_library \<Rightarrow> (string \<Rightarrow> 'a option) \<Rightarrow> 'a \<Rightarrow> string \<Rightarrow> classification option" where
  "svm_classification lib joblib_load vec text =
     (case load_first joblib_load model_paths of
        None \<Rightarrow> None
      | Some svm_model \<Rightarrow>
          (case transform lib vec text of
             None \<Rightarrow> None
           | Some text_vectorized \<Rightarrow>
               (case predict lib svm_model text_vectorized of
                  None \<Rightarrow> None
                | Some prediction \<Rightarrow>
                    (case predict_proba lib svm_model text_vectorized of
                       None \<Rightarrow> None
                     | Some probabilities \<Rightarrow>
                         if probabilities = [] then None
                         else Some \<lparr>label = (if prediction = 1 then ''verified'' else ''rumor''),
                                    confidence = Max (set probabilities)\<rparr>))))"

text \<open>
  \<open>classify_text\<close>, with the return statement that produced the result: \<open>Model_path\<close>
  for the one in the inner \<open>try\<close>, \<open>Keyword_fallback\<close> for the calls of
  \<open>classify_text_keywords\<close>.
\<close>

definition classify_text ::
  "('a, 'f) ml_library \<Rightarrow> (string \<Rightarrow> 'a option) \<Rightarrow> 'a globals \<Rightarrow> rat \<Rightarrow> string \<Rightarrow>
     path_taken \<times> classification" where
  "classify_text lib joblib_load g rnd text =
     (case vectorizer g of
        Some vec \<Rightarrow>
          (case svm_classification lib joblib_load vec text of
             Some result \<Rightarrow> (Model_path, result)
           | None \<Rightarrow> (Keyword_fallback, classify_text_keywords rnd (Some text)))
      | None \<Rightarrow> (Keyword_fallback, classify_text_keywords rnd (Some text)))"

text \<open>\<open>model_status\<close>: the values of \<open>status\<close> and \<open>models_loaded\<close> in the answer.\<close>

definition model_status :: "'a globals \<Rightarrow> string \<times> bool" where
  "model_status g =
     (let model_loaded = (ensemble_model g \<noteq> None \<and> vectorizer g \<noteq> None)
      in if model_loaded then (''ready'', True) else (''fallback'', False))"

section \<open>The scheduler and the manual triggers\<close>

text \<open>
  What one call of \<open>fetch_and_classify_reddit_posts\<close> ends with: it returns, or it raises
  an \<open>Exception\<close> with a message.
\<close>

datatype cycle_outcome = Returned | Raised string

datatype sched_event = Cycle_invoked nat | Log_info string | Log_error string | Sleep nat

text \<open>
  \<open>hourly_update_task\<close> is \<open>while True\<close>: it never returns. The model gives the events of
  its first \<open>fuel\<close> rounds, the rounds numbered from \<open>i\<close>; \<open>cycle i\<close> is what the cycle of
  round \<open>i\<close> ends with.
\<close>

fun hourly_update_task :: "(nat \<Rightarrow> cycle_outcome) \<Rightarrow> nat \<Rightarrow> nat \<Rightarrow> sched_event list" where
  "hourly_update_task cycle i 0 = []"
| "hourly_update_task cycle i (Suc fuel) =
     Log_info ''Starting hourly Reddit data update...'' #
     Cycle_invoked i #
     (case cycle i of
        Returned \<Rightarrow> Log_info ''Hourly update completed successfully''
      | Raised e \<Rightarrow> Log_error (''Error in hourly update: '' @ e)) #
     Sleep 3600 #
     hourly_update_task cycle (Suc i) fuel"

datatype endpoint = Force_update | Initialize_data

datatype http_response = Ok_200 string string | Http_exception nat string

text \<open>
  A handler awaits \<open>fetch_and_classify_reddit_posts()\<close> and answers from what it ends
  with. The cycle is a parameter \<open>fetch\<close>: it takes the state of the world (Reddit, the
  database) and gives its outcome and the new state. The handlers test nothing before they
  call it. Of an answer the model keeps the status and the message; the answer of
  \<open>/force-update\<close> carries also the time of the answer and a fixed note.
\<close>

definition force_update :: "('w \<Rightarrow> cycle_outcome \<times> 'w) \<Rightarrow> 'w \<Rightarrow> http_response \<times> 'w" where
  "force_update fetch w =
     (case fetch w of
        (Returned, w') \<Rightarrow> (Ok_200 ''success'' ''Manual update completed successfully'', w')
      | (Raised e, w') \<Rightarrow> (Http_exception 503 (''Manual update failed: '' @ e), w'))"

definition initialize_data :: "('w \<Rightarrow> cycle_outcome \<times> 'w) \<Rightarrow> 'w \<Rightarrow> http_response \<times> 'w" where
  "initialize_data fetch w =
     (case fetch w of
        (Returned, w') \<Rightarrow>
          (Ok_200 ''success'' ''Real Reddit data fetched and classified successfully'', w')
      | (Raised e, w') \<Rightarrow> (Http_exception 503 (''Reddit API error: '' @ e), w'))"

definition handler ::
  "endpoint \<Rightarrow> ('w \<Rightarrow> cycle_outcome \<times> 'w) \<Rightarrow> 'w \<Rightarrow> http_response \<times> 'w" where
  "handler ep = (case ep of Force_update \<Rightarrow> force_update | Initialize_data \<Rightarrow> initialize_data)"

text \<open>
  \<open>fetch_and_classify_reddit_posts\<close> contains no \<open>await\<close>: once a handler has called it,
  the event loop runs nothing else until the cycle has ended. The triggers that arrive
  meanwhile wait, and their handlers run afterwards, one after the other, in the order of
  arrival. \<open>serve\<close> gives the answers to a sequence of triggers and the state of the world
  after the last.
\<close>

fun serve ::
  "('w \<Rightarrow> cycle_outcome \<times> 'w) \<Rightarrow> endpoint list \<Rightarrow> 'w \<Rightarrow> http_response list \<times> 'w" where
  "serve fetch [] w = ([], w)"
| "serve fetch (ep # eps) w =
     (let (r, w') = handler ep fetch w;
          (rs, w'') = serve fetch eps w'
      in (r # rs, w''))"

text \<open>The state of the world after one cycle.\<close>

definition world_after :: "('w \<Rightarrow> cycle_outcome \<times> 'w) \<Rightarrow> 'w \<Rightarrow> 'w" where
  "world_after fetch w = snd (fetch w)"

text \<open>A cycle that returns, in a world that only counts the cycles run.\<close>

definition counting_cycle :: "nat \<Rightarrow> cycle_outcome \<times> nat" where
  "counting_cycle n = (Returned, Suc n)"

section \<open>Deduplication within one cycle\<close>

text \<open>
  \<open>post_data\<close> is the dictionary built for a fetched post. The timestamp is the post's
  creation time; the source formats it with \<open>isoformat\<close>, the model keeps the number of
  seconds. The key \<open>text\<close> of the source is the field \<open>tweet_text\<close>.
\<close>

record post_data =
  tweet_id :: string
  tweet_text :: string
  username :: string
  user_followers :: int
  tweet_timestamp :: nat
  likes :: int
  retweets :: int
  replies :: int
  category :: string
  image_url :: "string option"

text \<open>
  A Python dictionary keeps its keys in the order of their first insertion; storing
  under a key that is present replaces the value in place.
\<close>

fun dict_set :: "'k \<Rightarrow> 'v \<Rightarrow> ('k \<times> 'v) list \<Rightarrow> ('k \<times> 'v) list" where
  "dict_set k v [] = [(k, v)]"
| "dict_set k v ((k', v') # d) =
     (if k' = k then (k', v) # d else (k', v') # dict_set k v d)"

text \<open>\<open>{post['tweet_id']: post for post in all_posts}.values()\<close>\<close>

definition unique_posts :: "('z post_data_scheme) list \<Rightarrow> ('z post_data_scheme) list" where
  "unique_posts all_posts =
     map snd (foldl (\<lambda>d post. dict_set (tweet_id post) post d) [] all_posts)"

text \<open>The dictionary under construction: no key twice, every post under its own \<open>tweet_id\<close>.\<close>

definition keyed :: "(string \<times> 'z post_data_scheme) list \<Rightarrow> bool" where
  "keyed d = (distinct (map fst d) \<and> list_all (\<lambda>(k, v). tweet_id v = k) d)"

definition example_post :: "string \<Rightarrow> int \<Rightarrow> post_data" where
  "example_post i n =
     \<lparr>tweet_id = i, tweet_text = ''Severe flooding reported downtown.'', username = ''u/someone'',
      user_followers = 0, tweet_timestamp = 1700000000, likes = n, retweets = 0, replies = 0,
      category = ''flood'', image_url = None\<rparr>"

section \<open>The tweets table\<close>

text \<open>
  \<open>db_data\<close> is the dictionary handed to \<open>insert_tweet\<close>: the post with the
  classification and the model version. A row of \<open>tweets\<close> has the columns the
  statement names, \<open>processed_at\<close> and \<open>is_active\<close>; the surrogate key \<open>id\<close> is left
  out. The table is the list of its rows.
\<close>

record db_data = post_data +
  classification_label :: string
  confidence_score :: rat
  model_version :: string

record tweet_row = db_data +
  processed_at :: nat
  is_active :: bool

text \<open>
  Storing into \<open>VARCHAR(n)\<close>: a longer string is an error, unless the characters beyond
  \<open>n\<close> are all spaces, which are cut off. A string with a NUL character is refused by
  the driver.
\<close>

definition sql_text :: "string \<Rightarrow> string option" where
  "sql_text s = (if CHR 0x00 \<in> set s then None else Some s)"

definition varchar :: "nat \<Rightarrow> string \<Rightarrow> string option" where
  "varchar n s =
     (if CHR 0x00 \<in> set s then None
      else if length s \<le> n then Some s
      else if list_all (\<lambda>c. c = CHR '' '') (drop n s) then Some (take n s)
      else None)"

text \<open>\<open>INTEGER\<close> is a signed 32-bit number.\<close>

definition sql_integer :: "int \<Rightarrow> int option" where
  "sql_integer i = (if - (2 ^ 31) \<le> i \<and> i < 2 ^ 31 then Some i else None)"

text \<open>
  \<open>DECIMAL(5,4)\<close>: the value is rounded to four decimal places, half away from zero,
  and must then be below 10 in absolute value.
\<close>

definition decimal_5_4 :: "rat \<Rightarrow> rat option" where
  "decimal_5_4 x =
     (let r = sgn x * of_int (floor (\<bar>x\<bar> * 10000 + 1 / 2)) / 10000
      in if \<bar>r\<bar> < 10 then Some r else None)"

definition check_classification_label :: "string \<Rightarrow> bool" where
  "check_classification_label l = (l = ''verified'' \<or> l = ''rumor'')"

text \<open>
  The row proposed for insertion at time \<open>now\<close>, or \<open>None\<close> when a value does not fit its
  column or the \<open>CHECK\<close> constraint fails. The statement does not name \<open>image_url\<close>.
\<close>

definition proposed_row :: "nat \<Rightarrow> db_data \<Rightarrow> tweet_row option" where
  "proposed_row now d =
     do {
       tid \<leftarrow> varchar 50 (tweet_id d);
       txt \<leftarrow> sql_text (tweet_text d);
       usr \<leftarrow> varchar 100 (username d);
       fol \<leftarrow> sql_integer (user_followers d);
       lbl \<leftarrow> varchar 20 (classification_label d);
       conf \<leftarrow> decimal_5_4 (confidence_score d);
       cat \<leftarrow> varchar 50 (category d);
       ver \<leftarrow> varchar 20 (model_version d);
       lk \<leftarrow> sql_integer (likes d);
       rt \<leftarrow> sql_integer (retweets d);
       rp \<leftarrow> sql_integer (replies d);
       if check_classification_label lbl
       then Some \<lparr>tweet_id = tid, tweet_text = txt, username = usr, user_followers = fol,
                   tweet_timestamp = tweet_timestamp d, likes = lk, retweets = rt,
                   replies = rp, category = cat, image_url = None,
                   classification_label = lbl, confidence_score = conf,
                   model_version = ver, processed_at = now, is_active = True\<rparr>
       else None
     }"

text \<open>
  \<open>INSERT ... ON CONFLICT (tweet_id) DO UPDATE SET\<close>: the row with the proposed
  \<open>tweet_id\<close> gets the four columns of the \<open>SET\<close> list from the proposed row; when
  there is none the proposed row is added.
\<close>

fun upsert :: "tweet_row \<Rightarrow> tweet_row list \<Rightarrow> tweet_row list" where
  "upsert new [] = [new]"
| "upsert new (r # rows) =
     (if tweet_id r = tweet_id new
      then r\<lparr>classification_label := classification_label new,
              confidence_score := confidence_score new,
              category := category new,
              processed_at := processed_at new\<rparr> # rows
      else r # upsert new rows)"

text \<open>\<open>db_data = {**post_data, "classification_label": ..., "confidence_score": ..., "model_version": "v2.0"}\<close>\<close>

definition make_db_data :: "post_data \<Rightarrow> classification \<Rightarrow> db_data" where
  "make_db_data post c =
     post_data.extend post (db_data.fields (label c) (confidence c) ''v2.0'')"

text \<open>
  \<open>insert_tweet\<close>: \<open>conn_ok\<close> says whether \<open>get_connection\<close> and the commit succeed,
  \<open>now\<close> is \<open>CURRENT_TIMESTAMP\<close>. Any exception gives \<open>False\<close> and leaves the table as it
  was.
\<close>

definition insert_tweet ::
  "bool \<Rightarrow> nat \<Rightarrow> db_data \<Rightarrow> tweet_row list \<Rightarrow> bool \<times> tweet_row list" where
  "insert_tweet conn_ok now tweet_data rows =
     (if \<not> conn_ok then (False, rows)
      else case proposed_row now tweet_data of
             None \<Rightarrow> (False, rows)
           | Some new \<Rightarrow> (True, upsert new rows))"

text \<open>A history of the table: calls of \<open>insert_tweet\<close>, starting from the empty table.\<close>

fun run_inserts :: "(bool \<times> nat \<times> db_data) list \<Rightarrow> tweet_row list \<Rightarrow> tweet_row list" where
  "run_inserts [] rows = rows"
| "run_inserts ((conn_ok, now, d) # calls) rows =
     run_inserts calls (snd (insert_tweet conn_ok now d rows))"

text \<open>The row \<open>old\<close> after the \<open>DO UPDATE SET\<close> clause has taken the values of \<open>new\<close>.\<close>

definition updated_row :: "tweet_row \<Rightarrow> tweet_row \<Rightarrow> tweet_row" where
  "updated_row old new =
     old\<lparr>classification_label := classification_label new,
         confidence_score := confidence_score new,
         category := category new,
         processed_at := processed_at new\<rparr>"

text \<open>A stored row and a later sighting of the same post, for the examples.\<close>

definition stored_row :: tweet_row where
  "stored_row =
     \<lparr>tweet_id = ''reddit_a'', tweet_text = ''Severe flooding reported downtown.'',
      username = ''u/someone'', user_followers = 0, tweet_timestamp = 1700000000, likes = 120,
      retweets = 0, replies = 7, category = ''flood'', image_url = None,
      classification_label = ''rumor'', confidence_score = 55 / 100, model_version = ''v2.0'',
      processed_at = 100, is_active = True\<rparr>"

definition resighted_post :: post_data where
  "resighted_post =
     \<lparr>tweet_id = ''reddit_a'', tweet_text = ''Flooding downtown, officials confirm.'',
      username = ''u/other'', user_followers = 0, tweet_timestamp = 1700009999, likes = 500,
      retweets = 0, replies = 40, category = ''general'', image_url = None\<rparr>"

definition other_row :: tweet_row where
  "other_row = stored_row\<lparr>tweet_id := ''reddit_b'', likes := 3\<rparr>"

definition resighted :: db_data where
  "resighted = make_db_data resighted_post \<lparr>label = ''verified'', confidence = 7654321 / 10000000\<rparr>"

definition resighted_row :: "nat \<Rightarrow> tweet_row" where
  "resighted_row now =
     \<lparr>tweet_id = ''reddit_a'', tweet_text = ''Flooding downtown, officials confirm.'',
      username = ''u/other'', user_followers = 0, tweet_timestamp = 1700009999, likes = 500,
      retweets = 0, replies = 40, category = ''general'', image_url = None,
      classification_label = ''verified'', confidence_score = 7654 / 10000, model_version = ''v2.0'',
      processed_at = now, is_active = True\<rparr>"

section \<open>Examples for the classifier and the scheduler\<close>

text \<open>
  A library whose model always predicts class 1 with probabilities 0.1 and 0.9, and two
  states of the file system: with the vectorizer file only, and with both files.
\<close>

definition example_lib :: "(string, unit) ml_library" where
  "example_lib =
     \<lparr>transform = (\<lambda>v t. Some ()), predict = (\<lambda>m x. Some 1),
      predict_proba = (\<lambda>m x. Some [1 / 10, 9 / 10])\<rparr>"

definition vectorizer_only :: "string \<Rightarrow> string option" where
  "vectorizer_only path =
     (if path = ''models/tfidf_vectorizer.joblib'' then Some ''TfidfVectorizer'' else None)"

definition both_files :: "string \<Rightarrow> string option" where
  "both_files path =
     (if path = ''models/tfidf_vectorizer.joblib'' then Some ''TfidfVectorizer''
      else if path = ''models/LinearSVM.joblib'' then Some ''LinearSVM''
      else None)"

text \<open>One round of the scheduler's loop: the cycle between its two lines in the log, then the wait of one hour.\<close>

definition hourly_round :: "(nat \<Rightarrow> cycle_outcome) \<Rightarrow> nat \<Rightarrow> sched_event list" where
  "hourly_round cycle j =
     [Log_info ''Starting hourly Reddit data update...'',
      Cycle_invoked j,
      (case cycle j of
         Returned \<Rightarrow> Log_info ''Hourly update completed successfully''
       | Raised e \<Rightarrow> Log_error (''Error in hourly update: '' @ e)),
      Sleep 3600]"

section \<open>Code equations for the character classes\<close>

lemma bits_le_val:
  "length as = length bs \<Longrightarrow>
   bits_le acc as bs =
     ((horner_sum of_bool 2 as :: nat) < horner_sum of_bool 2 bs \<or>
      ((horner_sum of_bool 2 as :: nat) = horner_sum of_bool 2 bs \<and> acc))"
proof (induction as bs arbitrary: acc rule: list_induct2)
  case Nil then show ?case by simp
next
  case (Cons a as b bs)
  define x :: nat where "x = horner_sum of_bool 2 as"
  define y :: nat where "y = horner_sum of_bool 2 bs"
  have ih: "bits_le c as bs = (x < y \<or> (x = y \<and> c))" for c
    unfolding x_def y_def by (rule Cons.IH)
  have "bits_le acc (a # as) (b # bs) = (of_bool a + 2 * x < of_bool b + 2 * y \<or>
          (of_bool a + 2 * x = of_bool b + 2 * y \<and> acc))"
    unfolding bits_le.simps ih by (cases a; cases b; simp; arith)
  then show ?case by (simp add: x_def y_def)
qed


lemma char_le_code [code]:
  "char_le (Char a0 a1 a2 a3 a4 a5 a6 a7) (Char b0 b1 b2 b3 b4 b5 b6 b7) =
     bits_le True [a0, a1, a2, a3, a4, a5, a6, a7] [b0, b1, b2, b3, b4, b5, b6, b7]"
proof -
  let ?as = "[a0, a1, a2, a3, a4, a5, a6, a7]" and ?bs = "[b0, b1, b2, b3, b4, b5, b6, b7]"
  have "length ?as = length ?bs" by simp
  from bits_le_val [OF this, of True]
  have "bits_le True ?as ?bs = ((horner_sum of_bool 2 ?as :: nat) \<le> horner_sum of_bool 2 ?bs)"
    by (simp only: simp_thms le_eq_less_or_eq)
  then show ?thesis
    by (simp only: char_le_def of_char_Char)
qed


lemma py_isupper_bit5: "py_isupper (Char b0 b1 b2 b3 b4 b5 b6 b7) \<Longrightarrow> \<not> b5"
  unfolding py_isupper_def in_range_def char_le_code
  by (cases b5; cases b6; cases b7; simp)

lemma char_of_add_32:
  "char_of (of_char (Char b0 b1 b2 b3 b4 False b6 b7) + (32::nat)) =
     Char b0 b1 b2 b3 b4 True b6 b7"
proof -
  have "of_char (Char b0 b1 b2 b3 b4 False b6 b7) + (32::nat) =
        of_char (Char b0 b1 b2 b3 b4 True b6 b7)"
    by (simp only: of_char_Char horner_sum_simps of_bool_eq) simp
  then show ?thesis by (simp only: char_of_char)
qed

lemma py_lower_char_code [code]:
  "py_lower_char (Char b0 b1 b2 b3 b4 b5 b6 b7) =
     (if py_isupper (Char b0 b1 b2 b3 b4 b5 b6 b7)
      then Char b0 b1 b2 b3 b4 True b6 b7 else Char b0 b1 b2 b3 b4 b5 b6 b7)"
proof (cases "py_isupper (Char b0 b1 b2 b3 b4 b5 b6 b7)")
  case True
  then have "b5 = False" using py_isupper_bit5 by blast
  with True show ?thesis
    by (simp only: py_lower_char_def char_of_add_32 if_True)
next
  case False
  then show ?thesis by (simp only: py_lower_char_def if_False)
qed

lemma emoji_char_code [code]: "emoji_char c = False"
proof -
  have "(of_char c :: nat) < 256" by simp
  then show ?thesis unfolding emoji_char_def Let_def by arith
qed


section \<open>Rounding to a float is monotone\<close>

lemma rne_int: "rne (of_int k) = k"
  by (simp add: rne_def)

lemma rne_floor: "\<lfloor>y\<rfloor> \<le> rne y \<and> rne y \<le> \<lfloor>y\<rfloor> + 1"
  by (simp add: rne_def Let_def)

lemma rne_mono:
  assumes "y \<le> z"
  shows "rne y \<le> rne z"
proof (cases "\<lfloor>y\<rfloor> = \<lfloor>z\<rfloor>")
  case True
  have "y - of_int \<lfloor>z\<rfloor> \<le> z - of_int \<lfloor>z\<rfloor>" using assms by simp
  then show ?thesis unfolding rne_def Let_def True by auto
next
  case False
  have "\<lfloor>y\<rfloor> \<le> \<lfloor>z\<rfloor>" using assms by (rule floor_mono)
  with False have "\<lfloor>y\<rfloor> + 1 \<le> \<lfloor>z\<rfloor>" by simp
  then show ?thesis using rne_floor [of y] rne_floor [of z] by linarith
qed

lemma rne_ge: "of_int k \<le> y \<Longrightarrow> k \<le> rne y"
  using rne_mono [of "of_int k" y] by (simp add: rne_int)

lemma rne_le: "y \<le> of_int k \<Longrightarrow> rne y \<le> k"
  using rne_mono [of y "of_int k"] by (simp add: rne_int)

lemma expo_bounds:
  assumes "0 < x"
  shows "2 powi expo x \<le> x \<and> x < 2 powi (expo x + 1)"
proof -
  obtain p q where pq: "quotient_of x = (p, q)" by (cases "quotient_of x")
  have q: "0 < q" using quotient_of_denom_pos [OF pq] .
  have x: "x = of_int p / of_int q" using quotient_of_div [OF pq] .
  have p: "0 < p" using assms q unfolding x by (simp add: zero_less_divide_iff)
  define a where "a = bitlen p"
  define b where "b = bitlen q"
  have a1: "1 \<le> a" using p unfolding a_def by (simp add: bitlen_alt_def)
  have b1: "1 \<le> b" using q unfolding b_def by (simp add: bitlen_alt_def)
  have pa: "2 ^ nat (a - 1) \<le> p" "p < 2 ^ nat a"
    using bitlen_bounds [OF p] unfolding a_def by simp_all
  have qb: "2 ^ nat (b - 1) \<le> q" "q < 2 ^ nat b"
    using bitlen_bounds [OF q] unfolding b_def by simp_all
  have P: "(of_int p :: rat) < 2 powi a"
  proof -
    have "(of_int p :: rat) < of_int (2 ^ nat a)" using pa(2) by (simp only: of_int_less_iff)
    then show ?thesis using a1 by (simp add: power_int_def)
  qed
  have Q: "(2 :: rat) powi (b - 1) \<le> of_int q"
  proof -
    have "(of_int (2 ^ nat (b - 1)) :: rat) \<le> of_int q" using qb(1) by (simp only: of_int_le_iff)
    then show ?thesis using b1 by (simp add: power_int_def)
  qed
  have Q': "(of_int q :: rat) < 2 powi b"
  proof -
    have "(of_int q :: rat) < of_int (2 ^ nat b)" using qb(2) by (simp only: of_int_less_iff)
    then show ?thesis using b1 by (simp add: power_int_def)
  qed
  have P': "(2 :: rat) powi (a - 1) \<le> of_int p"
  proof -
    have "(of_int (2 ^ nat (a - 1)) :: rat) \<le> of_int p" using pa(1) by (simp only: of_int_le_iff)
    then show ?thesis using a1 by (simp add: power_int_def)
  qed
  have qpos: "(0 :: rat) < of_int q" using q by simp
  have upper: "x < 2 powi (a - b + 1)"
  proof -
    have "x * of_int q = of_int p" unfolding x using qpos by simp
    also have "\<dots> < 2 powi a" by (rule P)
    also have "\<dots> = 2 powi (a - b + 1) * (2 :: rat) powi (b - 1)"
      by (simp flip: power_int_add)
    also have "\<dots> \<le> 2 powi (a - b + 1) * of_int q"
      using Q by (simp add: mult_left_mono)
    finally show ?thesis using qpos by simp
  qed
  have lower: "2 powi (a - b - 1) < x"
  proof -
    have "2 powi (a - b - 1) * of_int q < 2 powi (a - b - 1) * (2 :: rat) powi b"
      using Q' by (simp add: mult_strict_left_mono)
    also have "\<dots> = 2 powi (a - 1)" by (simp flip: power_int_add)
    also have "\<dots> \<le> of_int p" by (rule P')
    also have "\<dots> = x * of_int q" unfolding x using qpos by simp
    finally show ?thesis using qpos by simp
  qed
  show ?thesis
  proof (cases "2 powi (a - b) \<le> x")
    case True
    then have "expo x = a - b" by (simp add: expo_def pq a_def b_def)
    then show ?thesis using True upper by simp
  next
    case False
    then have "expo x = a - b - 1" by (simp add: expo_def pq a_def b_def)
    then show ?thesis using False lower by simp
  qed
qed

lemma expo_mono:
  assumes "0 < x" and "x \<le> y"
  shows "expo x \<le> expo y"
proof -
  have "(2 :: rat) powi expo x \<le> x" using expo_bounds [OF assms(1)] by simp
  also have "\<dots> \<le> y" by fact
  also have "\<dots> < 2 powi (expo y + 1)" using expo_bounds [of y] assms by simp
  finally have lt: "(2 :: rat) powi expo x < 2 powi (expo y + 1)" .
  have "expo x < expo y + 1"
  proof (rule ccontr)
    assume "\<not> expo x < expo y + 1"
    then have "expo y + 1 \<le> expo x" by simp
    then have "(2 :: rat) powi (expo y + 1) \<le> 2 powi expo x"
      by (rule power_int_increasing) simp
    with lt show False by simp
  qed
  then show ?thesis by simp
qed


lemma ulp_pos: "0 < ulp x"
  by (simp add: ulp_def)

lemma fl_pos: "0 < x \<Longrightarrow> fl x = of_int (rne (x / ulp x)) * ulp x"
  by (simp add: fl_def)

lemma pow_split: "(2 :: rat) powi e = 2 ^ 52 * 2 powi (e - 52)"
proof -
  have "(2 :: rat) powi (52 + (e - 52)) = 2 powi 52 * 2 powi (e - 52)"
    by (rule power_int_add) simp
  moreover have "52 + (e - 52) = e" by simp
  ultimately have a: "(2 :: rat) powi e = 2 powi 52 * 2 powi (e - 52)" by (simp only:)
  have b: "(2 :: rat) powi 52 = 2 ^ 52" by (rule power_int_numeral)
  show ?thesis using a unfolding b .
qed

lemma pow_split': "(2 :: rat) powi (e + 1) = 2 ^ 53 * 2 powi (e - 52)"
proof -
  have "(2 :: rat) powi (53 + (e - 52)) = 2 powi 53 * 2 powi (e - 52)"
    by (rule power_int_add) simp
  moreover have "53 + (e - 52) = e + 1" by simp
  ultimately have a: "(2 :: rat) powi (e + 1) = 2 powi 53 * 2 powi (e - 52)" by (simp only:)
  have b: "(2 :: rat) powi 53 = 2 ^ 53" by (rule power_int_numeral)
  show ?thesis using a unfolding b .
qed

lemma fl_range:
  assumes "0 < x"
  shows "2 powi expo x \<le> fl x \<and> fl x \<le> 2 powi (expo x + 1)"
proof -
  have u: "0 < ulp x" by (rule ulp_pos)
  have lo: "2 ^ 52 * ulp x \<le> x" and hi: "x < 2 ^ 53 * ulp x"
    using expo_bounds [OF assms] pow_split [of "expo x"] pow_split' [of "expo x"]
    unfolding ulp_def by simp_all
  have "of_int (2 ^ 52) \<le> x / ulp x" using lo u by (simp add: pos_le_divide_eq)
  then have "2 ^ 52 \<le> rne (x / ulp x)" by (rule rne_ge)
  then have "(of_int (2 ^ 52) :: rat) \<le> of_int (rne (x / ulp x))" by (simp only: of_int_le_iff)
  then have a: "2 ^ 52 * ulp x \<le> of_int (rne (x / ulp x)) * ulp x"
    using u by (simp add: mult_right_mono)
  have "x / ulp x \<le> of_int (2 ^ 53)" using hi u by (simp add: pos_divide_le_eq)
  then have "rne (x / ulp x) \<le> 2 ^ 53" by (rule rne_le)
  then have "(of_int (rne (x / ulp x)) :: rat) \<le> of_int (2 ^ 53)" by (simp only: of_int_le_iff)
  then have b: "of_int (rne (x / ulp x)) * ulp x \<le> 2 ^ 53 * ulp x"
    using u by (simp add: mult_right_mono)
  show ?thesis
    using a b unfolding fl_pos [OF assms] pow_split [of "expo x"] pow_split' [of "expo x"] ulp_def
    by simp
qed

lemma fl_mono_pos:
  assumes "0 < x" and "x \<le> y"
  shows "fl x \<le> fl y"
proof (cases "expo x = expo y")
  case True
  have y: "0 < y" using assms by simp
  have u: "ulp x = ulp y" by (simp add: ulp_def True)
  have "x / ulp y \<le> y / ulp y" using assms(2) ulp_pos [of y] by (simp add: divide_right_mono)
  then have "rne (x / ulp y) \<le> rne (y / ulp y)" by (rule rne_mono)
  then have "(of_int (rne (x / ulp y)) :: rat) \<le> of_int (rne (y / ulp y))"
    by (simp only: of_int_le_iff)
  then show ?thesis
    unfolding fl_pos [OF assms(1)] fl_pos [OF y] u using ulp_pos [of y]
    by (simp add: mult_right_mono)
next
  case False
  have y: "0 < y" using assms by simp
  have "expo x \<le> expo y" using assms by (rule expo_mono)
  with False have "expo x + 1 \<le> expo y" by simp
  then have "(2 :: rat) powi (expo x + 1) \<le> 2 powi expo y"
    by (rule power_int_increasing) simp
  then show ?thesis using fl_range [OF assms(1)] fl_range [OF y] by linarith
qed

lemma fl_zero: "fl 0 = 0"
  by (simp add: fl_def)

lemma fl_nonneg: "0 \<le> x \<Longrightarrow> 0 \<le> fl x"
proof (cases "x = 0")
  case True then show ?thesis by (simp add: fl_zero)
next
  case False
  assume "0 \<le> x"
  with False have p: "0 < x" by simp
  have "(0 :: rat) < 2 powi expo x" by simp
  then show ?thesis using fl_range [OF p] by linarith
qed

lemma fl_mono:
  assumes "0 \<le> x" and "x \<le> y"
  shows "fl x \<le> fl y"
proof (cases "x = 0")
  case True
  then show ?thesis using fl_nonneg [of y] assms by (simp add: fl_zero)
next
  case False
  with assms(1) have "0 < x" by simp
  then show ?thesis using assms(2) by (rule fl_mono_pos)
qed

lemma fl_half: "fl (5 / 10) = 5 / 10"
  by code_simp

section \<open>The category detector: proofs\<close>

lemma ci_substring_lower:
  assumes "py_lower k = k"
  shows "ci_substring k t = py_in k (py_lower t)"
proof
  assume "ci_substring k t"
  then obtain m where m: "sublist m t" "py_lower m = py_lower k"
    by (auto simp: ci_substring_def list_ex_iff)
  then obtain ps ss where "t = ps @ m @ ss" by (auto simp: sublist_def)
  then have "py_lower t = py_lower ps @ k @ py_lower ss"
    using m assms by (simp add: py_lower_def)
  then show "py_in k (py_lower t)" unfolding py_in_def sublist_def by blast
next
  assume "py_in k (py_lower t)"
  then obtain ps ss where "map py_lower_char t = ps @ k @ ss"
    by (auto simp: py_in_def sublist_def py_lower_def)
  then obtain us vs where t: "t = us @ vs" and "k @ ss = map py_lower_char vs"
    by (auto simp: map_eq_append_conv)
  then obtain m ws where vs: "vs = m @ ws" and k: "k = map py_lower_char m"
    by (metis map_eq_append_conv)
  have "sublist m t" unfolding sublist_def using t vs by blast
  moreover have "py_lower m = py_lower k" using k assms by (simp add: py_lower_def)
  ultimately show "ci_substring k t" by (auto simp: ci_substring_def list_ex_iff)
qed

lemma keywords_lower:
  "list_all (\<lambda>(c, kws). list_all (\<lambda>k. py_lower k = k) kws) categories"
  by code_simp

lemma category_loop_find:
  assumes "list_all (\<lambda>(c, kws). list_all (\<lambda>k. py_lower k = k) kws) items"
  shows "category_loop items (py_lower text) =
     (case find (\<lambda>(c, kws). list_ex (\<lambda>k. ci_substring k text) kws)
             items of
        None \<Rightarrow> ''general''
      | Some (c, kws) \<Rightarrow> c)"
  using assms
proof (induction items)
  case Nil
  then show ?case by simp
next
  case (Cons item items)
  obtain c kws where item: "item = (c, kws)" by (cases item)
  have low: "list_all (\<lambda>k. py_lower k = k) kws" using Cons.prems item by simp
  have "list_ex (\<lambda>k. py_in k (py_lower text)) kws = list_ex (\<lambda>k. ci_substring k text) kws"
    using low by (induction kws) (simp_all add: ci_substring_lower)
  then show ?case using Cons item by simp
qed

text \<open>
  Claim C8. For every text, \<open>detect_disaster_category\<close> returns the first category, in
  the order earthquake, flood, fire, storm, weather, volcanic, landslide, tsunami, one of
  whose keywords occurs in the text ignoring case, and \<open>general\<close> when there is none; it
  maps "7.2 magnitude earthquake hits coast" to \<open>earthquake\<close> and "no keywords here" to
  \<open>general\<close>.
\<close>

theorem detect_disaster_category_first_match:
  "detect_disaster_category text = first_matching_category text \<and>
   map fst categories =
     [''earthquake'', ''flood'', ''fire'', ''storm'', ''weather'', ''volcanic'', ''landslide'', ''tsunami''] \<and>
   detect_disaster_category ''7.2 magnitude earthquake hits coast'' = ''earthquake'' \<and>
   detect_disaster_category ''no keywords here'' = ''general''"
proof -
  have "detect_disaster_category text = first_matching_category text"
    unfolding detect_disaster_category_def first_matching_category_def
    by (rule category_loop_find [OF keywords_lower])
  moreover have "map fst categories =
     [''earthquake'', ''flood'', ''fire'', ''storm'', ''weather'', ''volcanic'', ''landslide'', ''tsunami'']"
    by (simp add: categories_def)
  moreover have "detect_disaster_category ''7.2 magnitude earthquake hits coast'' = ''earthquake''"
    by code_simp
  moreover have "detect_disaster_category ''no keywords here'' = ''general''"
    by code_simp
  ultimately show ?thesis by blast
qed

section \<open>Deduplication: proofs\<close>

lemma dict_set_map_fst:
  "map fst (dict_set k v d) = (if k \<in> set (map fst d) then map fst d else map fst d @ [k])"
  by (induction k v d rule: dict_set.induct) auto

lemma dict_set_distinct:
  "distinct (map fst d) \<Longrightarrow> distinct (map fst (dict_set k v d))"
  by (simp add: dict_set_map_fst)

lemma dict_set_set: "set (dict_set k v d) \<subseteq> insert (k, v) (set d)"
  by (induction k v d rule: dict_set.induct) auto

lemma dict_set_map_of:
  "map_of (dict_set k v d) = (map_of d)(k \<mapsto> v)"
  by (induction k v d rule: dict_set.induct) (auto simp: fun_eq_iff)

lemma dict_set_values:
  "list_all (\<lambda>(k, v). tweet_id v = k) d \<Longrightarrow>
   list_all (\<lambda>(k, v). tweet_id v = k) (dict_set (tweet_id p) p d)"
  by (induction d) auto

lemma keyed_dict_set: "keyed d \<Longrightarrow> keyed (dict_set (tweet_id p) p d)"
  unfolding keyed_def by (simp add: dict_set_distinct dict_set_values)

lemma keyed_fold:
  "keyed d \<Longrightarrow> keyed (foldl (\<lambda>d post. dict_set (tweet_id post) post d) d ps)"
  by (induction ps arbitrary: d) (simp_all add: keyed_dict_set)

lemma map_of_fold:
  "map_of (foldl (\<lambda>d post. dict_set (tweet_id post) post d) d ps) i =
     (if filter (\<lambda>p. tweet_id p = i) ps = [] then map_of d i
      else Some (last (filter (\<lambda>p. tweet_id p = i) ps)))"
proof (induction ps arbitrary: d)
  case Nil
  then show ?case by simp
next
  case (Cons p ps)
  show ?case by (simp add: Cons.IH dict_set_map_of)
qed

lemma keyed_filter_values:
  "keyed d \<Longrightarrow>
   filter (\<lambda>p. tweet_id p = i) (map snd d) = (case map_of d i of None \<Rightarrow> [] | Some v \<Rightarrow> [v])"
proof (induction d)
  case Nil
  then show ?case by simp
next
  case (Cons kv d)
  obtain k v where kv: "kv = (k, v)" by (cases kv)
  have kd: "keyed d" and kid: "tweet_id v = k" and fresh: "k \<notin> fst ` set d"
    using Cons.prems kv by (auto simp: keyed_def)
  show ?case
  proof (cases "k = i")
    case True
    have "map_of d i = None" using fresh True by (simp add: map_of_eq_None_iff)
    then have "filter (\<lambda>p. tweet_id p = i) (map snd d) = []"
      using Cons.IH [OF kd] by simp
    then show ?thesis using True kv kid by simp
  next
    case False
    then show ?thesis using Cons.IH [OF kd] kv kid by simp
  qed
qed

lemma dict_set_subset: "snd ` set (dict_set k v d) \<subseteq> insert v (snd ` set d)"
  using dict_set_set [of k v d] by force

lemma keyed_map_fst: "keyed d \<Longrightarrow> map (tweet_id \<circ> snd) d = map fst d"
  unfolding keyed_def by (induction d) auto

lemma fold_values_subset:
  "snd ` set (foldl (\<lambda>d post. dict_set (tweet_id post) post d) d ps) \<subseteq> snd ` set d \<union> set ps"
proof (induction ps arbitrary: d)
  case Nil
  then show ?case by simp
next
  case (Cons p ps)
  show ?case using Cons.IH [of "dict_set (tweet_id p) p d"] dict_set_subset [of "tweet_id p" p d]
    by auto
qed

text \<open>
  Claim C9. For every batch of posts, the deduplication step keeps exactly one entry per
  \<open>tweet_id\<close> of the batch: the entries of the result under an identifier of the batch
  are the single post that comes last under that identifier in the batch. No identifier
  occurs twice in the result, and every entry of the result is a post of the batch.
\<close>

theorem unique_posts_one_per_id:
  "(\<forall>i \<in> tweet_id ` set all_posts.
      filter (\<lambda>p. tweet_id p = i) (unique_posts all_posts) =
        [last (filter (\<lambda>p. tweet_id p = i) all_posts)]) \<and>
   distinct (map tweet_id (unique_posts all_posts)) \<and>
   set (unique_posts all_posts) \<subseteq> set all_posts"
proof -
  let ?d = "foldl (\<lambda>d post. dict_set (tweet_id post) post d) [] all_posts"
  have k: "keyed ?d" by (rule keyed_fold) (simp add: keyed_def)
  have one: "filter (\<lambda>p. tweet_id p = i) (unique_posts all_posts) =
        [last (filter (\<lambda>p. tweet_id p = i) all_posts)]" if "i \<in> tweet_id ` set all_posts" for i
  proof -
    have "filter (\<lambda>p. tweet_id p = i) all_posts \<noteq> []"
      using that by (auto simp: filter_empty_conv)
    then have "map_of ?d i = Some (last (filter (\<lambda>p. tweet_id p = i) all_posts))"
      by (simp add: map_of_fold)
    then show ?thesis
      unfolding unique_posts_def using keyed_filter_values [OF k, of i] by simp
  qed
  have eq: "map (tweet_id \<circ> snd) ?d = map fst ?d" using k by (rule keyed_map_fst)
  have "distinct (map fst ?d)" using k unfolding keyed_def by blast
  then have dist: "distinct (map tweet_id (unique_posts all_posts))"
    unfolding unique_posts_def map_map eq .
  have sub: "set (unique_posts all_posts) \<subseteq> set all_posts"
    using fold_values_subset [of "[]" all_posts] by (simp add: unique_posts_def)
  from one dist sub show ?thesis by blast
qed

theorem unique_posts_one_per_id_witness:
  "unique_posts [example_post ''reddit_a'' 1, example_post ''reddit_b'' 2, example_post ''reddit_a'' 3] =
     [example_post ''reddit_a'' 3, example_post ''reddit_b'' 2] \<and>
   filter (\<lambda>p. tweet_id p = ''reddit_a'')
     (unique_posts [example_post ''reddit_a'' 1, example_post ''reddit_b'' 2, example_post ''reddit_a'' 3]) =
     [last (filter (\<lambda>p. tweet_id p = ''reddit_a'')
        [example_post ''reddit_a'' 1, example_post ''reddit_b'' 2, example_post ''reddit_a'' 3])]"
proof -
  let ?ps = "[example_post ''reddit_a'' 1, example_post ''reddit_b'' 2, example_post ''reddit_a'' 3]"
  have mem: "''reddit_a'' \<in> tweet_id ` set ?ps" by (simp add: example_post_def)
  have "filter (\<lambda>p. tweet_id p = ''reddit_a'') (unique_posts ?ps) =
     [last (filter (\<lambda>p. tweet_id p = ''reddit_a'') ?ps)]"
    using unique_posts_one_per_id [of ?ps] mem by blast
  moreover have "unique_posts ?ps = [example_post ''reddit_a'' 3, example_post ''reddit_b'' 2]"
    by (simp add: unique_posts_def example_post_def)
  ultimately show ?thesis by blast
qed

section \<open>The tweets table: proofs\<close>

lemma proposed_row_label:
  "proposed_row now d = Some new \<Longrightarrow> check_classification_label (classification_label new)"
  unfolding proposed_row_def
  by (auto simp: bind_eq_Some_conv split: if_splits)

lemma varchar_unknown: "varchar 20 ''unknown'' = Some ''unknown''"
  by (simp add: varchar_def)

lemma proposed_row_unknown:
  "classification_label d = ''unknown'' \<Longrightarrow> proposed_row now d = None"
proof (cases "proposed_row now d")
  case None then show ?thesis .
next
  case (Some new)
  assume u: "classification_label d = ''unknown''"
  from Some have "check_classification_label ''unknown''"
    unfolding proposed_row_def u varchar_unknown
    by (auto simp: bind_eq_Some_conv split: if_splits)
  then show ?thesis by (simp add: check_classification_label_def)
qed


lemma upsert_label:
  "list_all (\<lambda>r. check_classification_label (classification_label r)) rows \<Longrightarrow>
   check_classification_label (classification_label new) \<Longrightarrow>
   list_all (\<lambda>r. check_classification_label (classification_label r)) (upsert new rows)"
  by (induction new rows rule: upsert.induct) auto

lemma insert_tweet_label:
  "list_all (\<lambda>r. check_classification_label (classification_label r)) rows \<Longrightarrow>
   list_all (\<lambda>r. check_classification_label (classification_label r))
     (snd (insert_tweet conn_ok now d rows))"
  unfolding insert_tweet_def
  by (auto split: option.splits intro: upsert_label proposed_row_label)

lemma run_inserts_label:
  "list_all (\<lambda>r. check_classification_label (classification_label r)) rows \<Longrightarrow>
   list_all (\<lambda>r. check_classification_label (classification_label r)) (run_inserts calls rows)"
proof (induction calls arbitrary: rows)
  case Nil
  then show ?case by simp
next
  case (Cons call calls)
  obtain c n d where call: "call = (c, n, d)" by (cases call)
  show ?case unfolding call run_inserts.simps
    by (rule Cons.IH) (rule insert_tweet_label [OF Cons.prems])
qed

text \<open>
  Claim C10. Every row that a history of \<open>insert_tweet\<close> calls leaves in the table has the
  label \<open>verified\<close> or \<open>rumor\<close>. The failure-safe result of the classifier is the label
  \<open>unknown\<close> with confidence 0.5; for a record carrying it the \<open>CHECK\<close> constraint fails,
  \<open>insert_tweet\<close> returns \<open>False\<close> and the table stays as it was, so the record is not
  stored.
\<close>

theorem tweets_label_verified_or_rumor:
  "list_all (\<lambda>r. classification_label r = ''verified'' \<or> classification_label r = ''rumor'')
     (run_inserts calls []) \<and>
   classify_text_keywords rnd None = \<lparr>label = ''unknown'', confidence = 5 / 10\<rparr> \<and>
   insert_tweet conn_ok now (make_db_data post (classify_text_keywords rnd None)) rows = (False, rows)"
proof -
  have "list_all (\<lambda>r. check_classification_label (classification_label r)) (run_inserts calls [])"
    by (rule run_inserts_label) simp
  then have a: "list_all (\<lambda>r. classification_label r = ''verified'' \<or> classification_label r = ''rumor'')
     (run_inserts calls [])"
    unfolding check_classification_label_def .
  have b: "classify_text_keywords rnd None = \<lparr>label = ''unknown'', confidence = 5 / 10\<rparr>"
    by (simp only: classify_text_keywords_def option.case fl_half)
  have "classification_label (make_db_data post (classify_text_keywords rnd None)) = ''unknown''"
    unfolding b by (simp add: make_db_data_def post_data.defs db_data.defs)
  then have "proposed_row now (make_db_data post (classify_text_keywords rnd None)) = None"
    by (rule proposed_row_unknown)
  then have c: "insert_tweet conn_ok now (make_db_data post (classify_text_keywords rnd None)) rows = (False, rows)"
    by (simp add: insert_tweet_def)
  from a b c show ?thesis by blast
qed

lemma upsert_existing:
  "distinct (map tweet_id rows) \<Longrightarrow> old \<in> set rows \<Longrightarrow> tweet_id old = tweet_id new \<Longrightarrow>
   filter (\<lambda>r. tweet_id r = tweet_id new) (upsert new rows) = [updated_row old new]"
proof (induction new rows rule: upsert.induct)
  case (1 new)
  then show ?case by simp
next
  case (2 new r rows)
  show ?case
  proof (cases "tweet_id r = tweet_id new")
    case True
    have fresh: "tweet_id new \<notin> tweet_id ` set rows"
      using "2.prems"(1) True by simp
    have "old = r"
    proof (rule ccontr)
      assume "old \<noteq> r"
      then have "old \<in> set rows" using "2.prems"(2) by simp
      then have "tweet_id old \<in> tweet_id ` set rows" by (rule imageI)
      then show False using fresh unfolding "2.prems"(3) by contradiction
    qed
    moreover have "filter (\<lambda>r. tweet_id r = tweet_id new) rows = []"
      unfolding filter_empty_conv
    proof (intro ballI notI)
      fix x assume "x \<in> set rows" and "tweet_id x = tweet_id new"
      then have "tweet_id new \<in> tweet_id ` set rows" by (metis imageI)
      then show False using fresh by contradiction
    qed
    ultimately show ?thesis using True by (simp add: updated_row_def)
  next
    case False
    then have "old \<in> set rows" using "2.prems" by auto
    then show ?thesis using "2.IH" [OF False] "2.prems" False by simp
  qed
qed

lemma upsert_others:
  "filter (\<lambda>r. tweet_id r \<noteq> tweet_id new) (upsert new rows) =
   filter (\<lambda>r. tweet_id r \<noteq> tweet_id new) rows"
  by (induction new rows rule: upsert.induct) auto

lemma upsert_ids:
  "tweet_id new \<in> tweet_id ` set rows \<Longrightarrow> map tweet_id (upsert new rows) = map tweet_id rows"
  by (induction new rows rule: upsert.induct) auto

lemma proposed_row_time:
  "proposed_row now d = Some new \<Longrightarrow> proposed_row now2 d = Some (new\<lparr>processed_at := now2\<rparr>)"
  unfolding proposed_row_def
  by (auto simp: bind_eq_Some_conv split: if_splits)

lemma proposed_row_columns:
  "proposed_row now d = Some new \<Longrightarrow>
   varchar 50 (tweet_id d) = Some (tweet_id new) \<and>
   varchar 20 (classification_label d) = Some (classification_label new) \<and>
   decimal_5_4 (confidence_score d) = Some (confidence_score new) \<and>
   varchar 50 (category d) = Some (category new) \<and>
   processed_at new = now"
  unfolding proposed_row_def
  by (auto simp: bind_eq_Some_conv split: if_splits)


lemma decimal_5_4_example: "decimal_5_4 (7654321 / 10000000) = Some (7654 / 10000)"
  by code_simp

lemma proposed_resighted: "proposed_row 200 resighted = Some (resighted_row 200)"
  by (simp add: proposed_row_def varchar_def sql_text_def sql_integer_def decimal_5_4_example
      check_classification_label_def resighted_row_def resighted_def make_db_data_def
      resighted_post_def post_data.defs db_data.defs)

text \<open>
  Claim C3, as amended. Let the identifiers of the table be distinct, let the record fit
  the columns and the \<open>CHECK\<close> constraint of the table (\<open>proposed_row\<close> gives a row
  \<open>new\<close>), and let \<open>old\<close> be the stored row with its \<open>tweet_id\<close>. Then \<open>insert_tweet\<close>,
  with a working connection, returns \<open>True\<close>; the table has exactly one row for that
  \<open>tweet_id\<close>, namely \<open>old\<close> with \<open>classification_label\<close>, \<open>confidence_score\<close> (rounded to four
  decimals) and \<open>category\<close> taken from the record and \<open>processed_at\<close> set to the current
  time, every other column, \<open>is_active\<close> among them, as it was; the rows of other identifiers are
  untouched. Upserting the same record again at time \<open>now2\<close> leaves that one row, with
  the same columns and \<open>processed_at = now2\<close>.
\<close>

theorem insert_tweet_existing_row:
  assumes "distinct (map tweet_id rows)"
    and "proposed_row now d = Some new"
    and "old \<in> set rows"
    and "tweet_id old = tweet_id new"
  shows "insert_tweet True now d rows = (True, upsert new rows) \<and>
         filter (\<lambda>r. tweet_id r = tweet_id new) (upsert new rows) =
           [old\<lparr>classification_label := classification_label new,
                 confidence_score := confidence_score new,
                 category := category new,
                 processed_at := now\<rparr>] \<and>
         filter (\<lambda>r. tweet_id r \<noteq> tweet_id new) (upsert new rows) =
           filter (\<lambda>r. tweet_id r \<noteq> tweet_id new) rows \<and>
         map tweet_id (upsert new rows) = map tweet_id rows \<and>
         varchar 20 (classification_label d) = Some (classification_label new) \<and>
         decimal_5_4 (confidence_score d) = Some (confidence_score new) \<and>
         varchar 50 (category d) = Some (category new) \<and>
         filter (\<lambda>r. tweet_id r = tweet_id new)
           (snd (insert_tweet True now2 d (snd (insert_tweet True now d rows)))) =
           [old\<lparr>classification_label := classification_label new,
                 confidence_score := confidence_score new,
                 category := category new,
                 processed_at := now2\<rparr>]"
proof -
  have cols: "processed_at new = now"
    "varchar 20 (classification_label d) = Some (classification_label new)"
    "decimal_5_4 (confidence_score d) = Some (confidence_score new)"
    "varchar 50 (category d) = Some (category new)"
    using proposed_row_columns [OF assms(2)] by simp_all
  have first: "insert_tweet True now d rows = (True, upsert new rows)"
    by (simp add: insert_tweet_def assms(2))
  have one: "filter (\<lambda>r. tweet_id r = tweet_id new) (upsert new rows) = [updated_row old new]"
    using assms(1,3,4) by (rule upsert_existing)
  have mem: "tweet_id new \<in> tweet_id ` set rows"
    using assms(3,4) by (metis imageI)
  have ids: "map tweet_id (upsert new rows) = map tweet_id rows"
    using mem by (rule upsert_ids)
  let ?new2 = "new\<lparr>processed_at := now2\<rparr>"
  have second: "insert_tweet True now2 d (upsert new rows) = (True, upsert ?new2 (upsert new rows))"
    by (simp add: insert_tweet_def proposed_row_time [OF assms(2)])
  have old1: "updated_row old new \<in> set (upsert new rows)"
  proof -
    have "updated_row old new \<in> set (filter (\<lambda>r. tweet_id r = tweet_id new) (upsert new rows))"
      unfolding one by simp
    then show ?thesis by simp
  qed
  have two: "filter (\<lambda>r. tweet_id r = tweet_id ?new2) (upsert ?new2 (upsert new rows)) =
      [updated_row (updated_row old new) ?new2]"
  proof (rule upsert_existing)
    show "distinct (map tweet_id (upsert new rows))" unfolding ids by (rule assms(1))
    show "updated_row old new \<in> set (upsert new rows)" by (rule old1)
    show "tweet_id (updated_row old new) = tweet_id ?new2"
      using assms(4) by (simp add: updated_row_def)
  qed
  have u1: "updated_row old new =
      old\<lparr>classification_label := classification_label new,
          confidence_score := confidence_score new,
          category := category new, processed_at := now\<rparr>"
    by (simp add: updated_row_def cols(1))
  have u2: "updated_row (updated_row old new) ?new2 =
      old\<lparr>classification_label := classification_label new,
          confidence_score := confidence_score new,
          category := category new, processed_at := now2\<rparr>"
    by (simp add: updated_row_def)
  have two': "filter (\<lambda>r. tweet_id r = tweet_id new)
           (snd (insert_tweet True now2 d (snd (insert_tweet True now d rows)))) =
           [old\<lparr>classification_label := classification_label new,
                 confidence_score := confidence_score new,
                 category := category new,
                 processed_at := now2\<rparr>]"
  proof -
    have "filter (\<lambda>r. tweet_id r = tweet_id new) (upsert ?new2 (upsert new rows)) =
           [old\<lparr>classification_label := classification_label new,
                 confidence_score := confidence_score new,
                 category := category new,
                 processed_at := now2\<rparr>]"
      using two unfolding u2 by simp
    then show ?thesis by (simp only: first second snd_conv)
  qed
  show ?thesis
    using first one [unfolded u1] upsert_others [of new rows] ids cols(2,3,4) two'
    by (intro conjI) assumption+
qed

theorem insert_tweet_existing_row_witness:
  "distinct (map tweet_id [other_row, stored_row]) \<and>
   proposed_row 200 resighted = Some (resighted_row 200) \<and>
   stored_row \<in> set [other_row, stored_row] \<and>
   tweet_id stored_row = tweet_id (resighted_row 200) \<and>
   insert_tweet True 200 resighted [other_row, stored_row] =
     (True, [other_row,
             stored_row\<lparr>classification_label := ''verified'', confidence_score := 7654 / 10000,
                        category := ''general'', processed_at := 200\<rparr>]) \<and>
   filter (\<lambda>r. tweet_id r = ''reddit_a'')
     (snd (insert_tweet True 300 resighted (snd (insert_tweet True 200 resighted [other_row, stored_row])))) =
     [stored_row\<lparr>classification_label := ''verified'', confidence_score := 7654 / 10000,
                 category := ''general'', processed_at := 300\<rparr>]"
proof -
  have h1: "distinct (map tweet_id [other_row, stored_row])"
    by (simp add: other_row_def stored_row_def)
  have h2: "proposed_row 200 resighted = Some (resighted_row 200)"
    by (rule proposed_resighted)
  have h3: "stored_row \<in> set [other_row, stored_row]" by simp
  have h4: "tweet_id stored_row = tweet_id (resighted_row 200)"
    by (simp add: stored_row_def resighted_row_def)
  have e: "upsert (resighted_row 200) [other_row, stored_row] =
     [other_row,
      stored_row\<lparr>classification_label := ''verified'', confidence_score := 7654 / 10000,
                 category := ''general'', processed_at := 200\<rparr>]"
    by (simp add: other_row_def stored_row_def resighted_row_def)
  have f: "old\<lparr>classification_label := classification_label (resighted_row 200),
                 confidence_score := confidence_score (resighted_row 200),
                 category := category (resighted_row 200),
                 processed_at := n\<rparr> =
           old\<lparr>classification_label := ''verified'', confidence_score := 7654 / 10000,
                 category := ''general'', processed_at := n\<rparr>" for old :: tweet_row and n
    by (simp add: resighted_row_def)
  have g: "tweet_id (resighted_row 200) = ''reddit_a''" by (simp add: resighted_row_def)
  note t = insert_tweet_existing_row [OF h1 h2 h3 h4, of 300]
  have c1: "insert_tweet True 200 resighted [other_row, stored_row] =
     (True, [other_row,
             stored_row\<lparr>classification_label := ''verified'', confidence_score := 7654 / 10000,
                        category := ''general'', processed_at := 200\<rparr>])"
    using t [THEN conjunct1] unfolding e .
  have c8: "filter (\<lambda>r. tweet_id r = ''reddit_a'')
     (snd (insert_tweet True 300 resighted (snd (insert_tweet True 200 resighted [other_row, stored_row])))) =
     [stored_row\<lparr>classification_label := ''verified'', confidence_score := 7654 / 10000,
                 category := ''general'', processed_at := 300\<rparr>]"
    using t [THEN conjunct2, THEN conjunct2, THEN conjunct2, THEN conjunct2, THEN conjunct2,
             THEN conjunct2, THEN conjunct2]
    unfolding f g .
  show ?thesis
    using h1 h2 h3 h4 c1 c8 by (intro conjI) assumption+
qed

text \<open>
  The claim as stated, for every record, fails for the failure-safe record: the table has a
  row for its \<open>tweet_id\<close>, and \<open>insert_tweet\<close> returns \<open>False\<close> and overwrites nothing; the
  label stays \<open>rumor\<close> and \<open>processed_at\<close> stays 100.
\<close>

theorem insert_tweet_unknown_counterexample:
  "tweet_id (make_db_data resighted_post \<lparr>label = ''unknown'', confidence = 5 / 10\<rparr>) =
     tweet_id stored_row \<and>
   insert_tweet True 200 (make_db_data resighted_post \<lparr>label = ''unknown'', confidence = 5 / 10\<rparr>)
     [stored_row] = (False, [stored_row]) \<and>
   classification_label stored_row = ''rumor'' \<and> processed_at stored_row = 100"
proof -
  have "classification_label (make_db_data resighted_post \<lparr>label = ''unknown'', confidence = 5 / 10\<rparr>) = ''unknown''"
    by (simp add: make_db_data_def post_data.defs db_data.defs)
  then have "proposed_row 200 (make_db_data resighted_post \<lparr>label = ''unknown'', confidence = 5 / 10\<rparr>) = None"
    by (rule proposed_row_unknown)
  then show ?thesis
    by (simp add: insert_tweet_def make_db_data_def post_data.defs db_data.defs
        resighted_post_def stored_row_def)
qed

section \<open>The text normaliser: proofs\<close>

lemma clean_reddit_text_breaking:
  "clean_reddit_text ''BREAKING: Official USGS confirms magnitude 6.5 earthquake'' [] =
     ''Official USGS confirms magnitude 6.5 earthquake.''"
  by code_simp

lemma clean_reddit_text_blank: "clean_reddit_text '' '' [] = []"
  by code_simp

lemma clean_reddit_text_prefix_only: "clean_reddit_text ''BREAKING: '' [] = []"
  by code_simp


text \<open>
  Claim C6, as amended. For the title "BREAKING: Official USGS confirms magnitude 6.5
  earthquake" with an empty body the output is "Official USGS confirms magnitude 6.5
  earthquake.": it is not empty, it starts with "Official", the prefix "BREAKING: " being
  removed, and it ends with a period.
\<close>

theorem clean_reddit_text_breaking_example:
  "clean_reddit_text ''BREAKING: Official USGS confirms magnitude 6.5 earthquake'' [] =
     ''Official USGS confirms magnitude 6.5 earthquake.'' \<and>
   clean_reddit_text ''BREAKING: Official USGS confirms magnitude 6.5 earthquake'' [] \<noteq> [] \<and>
   prefix ''Official''
     (clean_reddit_text ''BREAKING: Official USGS confirms magnitude 6.5 earthquake'' []) \<and>
   last (clean_reddit_text ''BREAKING: Official USGS confirms magnitude 6.5 earthquake'' []) = CHR ''.''"
  unfolding clean_reddit_text_breaking by simp

text \<open>The output does not start with "Breaking".\<close>

theorem clean_reddit_text_breaking_counterexample:
  "\<not> prefix ''Breaking''
     (clean_reddit_text ''BREAKING: Official USGS confirms magnitude 6.5 earthquake'' [])"
  unfolding clean_reddit_text_breaking by simp

section \<open>The classifier and the scheduler: proofs\<close>

lemma startup_vectorizer_only:
  "startup_tasks vectorizer_only =
     \<lparr>ensemble_model = None, vectorizer = Some ''TfidfVectorizer'', background_task = None\<rparr>"
  by (simp add: startup_tasks_def initial_globals_def model_paths_def vectorizer_paths_def
      vectorizer_only_def)

lemma startup_both_files:
  "startup_tasks both_files =
     \<lparr>ensemble_model = Some ''LinearSVM'', vectorizer = Some ''TfidfVectorizer'',
      background_task = None\<rparr>"
  by (simp add: startup_tasks_def initial_globals_def model_paths_def vectorizer_paths_def
      both_files_def)

lemma load_both_files: "load_first both_files model_paths = Some ''LinearSVM''"
  by (simp add: model_paths_def both_files_def)

lemma svm_example:
  "svm_classification example_lib both_files ''TfidfVectorizer'' t =
     Some \<lparr>label = ''verified'', confidence = 9 / 10\<rparr>"
  by (simp add: svm_classification_def load_both_files example_lib_def)

lemma classify_text_model_only_if:
  "fst (classify_text lib joblib_load g rnd t) = Model_path \<Longrightarrow>
   vectorizer g \<noteq> None \<and> load_first joblib_load model_paths \<noteq> None"
  by (auto simp: classify_text_def svm_classification_def split: option.splits)

lemma startup_globals:
  "ensemble_model (startup_tasks joblib_load) = load_first joblib_load model_paths \<and>
   vectorizer (startup_tasks joblib_load) = load_first joblib_load vectorizer_paths \<and>
   background_task (startup_tasks joblib_load) = None"
  by (simp add: startup_tasks_def initial_globals_def)

lemma model_status_cases:
  "(model_status g = (''ready'', True)) = (ensemble_model g \<noteq> None \<and> vectorizer g \<noteq> None) \<and>
   (model_status g = (''fallback'', False)) = (ensemble_model g = None \<or> vectorizer g = None)"
  by (auto simp: model_status_def)

text \<open>
  Claim C7, as amended. \<open>classify_text\<close> takes the model path only if the vectorizer was
  loaded at startup and the model file can be loaded at the time of the call; the global
  \<open>ensemble_model\<close> is not consulted. When the vectorizer is absent every call uses the
  keyword fallback. When the file system at the call is the one of startup, the model
  path is taken only if both artifacts were loaded at startup. \<open>model_status\<close> reports
  \<open>ready\<close> exactly when both globals are set, and \<open>fallback\<close> otherwise.
\<close>

theorem classify_text_mode:
  "(fst (classify_text lib joblib_load g rnd t) = Model_path \<longrightarrow>
      vectorizer g \<noteq> None \<and> load_first joblib_load model_paths \<noteq> None) \<and>
   (vectorizer g = None \<longrightarrow>
      classify_text lib joblib_load g rnd t =
        (Keyword_fallback, classify_text_keywords rnd (Some t))) \<and>
   (fst (classify_text lib joblib_load (startup_tasks joblib_load) rnd t) = Model_path \<longrightarrow>
      ensemble_model (startup_tasks joblib_load) \<noteq> None \<and>
      vectorizer (startup_tasks joblib_load) \<noteq> None) \<and>
   (model_status g = (''ready'', True)) = (ensemble_model g \<noteq> None \<and> vectorizer g \<noteq> None) \<and>
   (model_status g = (''fallback'', False)) = (ensemble_model g = None \<or> vectorizer g = None)"
proof (intro conjI impI)
  assume "fst (classify_text lib joblib_load g rnd t) = Model_path"
  then show "vectorizer g \<noteq> None" and "load_first joblib_load model_paths \<noteq> None"
    using classify_text_model_only_if by blast+
next
  assume "vectorizer g = None"
  then show "classify_text lib joblib_load g rnd t =
        (Keyword_fallback, classify_text_keywords rnd (Some t))"
    by (simp add: classify_text_def)
next
  assume "fst (classify_text lib joblib_load (startup_tasks joblib_load) rnd t) = Model_path"
  then have "vectorizer (startup_tasks joblib_load) \<noteq> None \<and>
     load_first joblib_load model_paths \<noteq> None"
    by (rule classify_text_model_only_if)
  then show "ensemble_model (startup_tasks joblib_load) \<noteq> None"
    and "vectorizer (startup_tasks joblib_load) \<noteq> None"
    using startup_globals [of joblib_load] by simp_all
next
  show "(model_status g = (''ready'', True)) = (ensemble_model g \<noteq> None \<and> vectorizer g \<noteq> None)"
    and "(model_status g = (''fallback'', False)) = (ensemble_model g = None \<or> vectorizer g = None)"
    by (rule model_status_cases [THEN conjunct1], rule model_status_cases [THEN conjunct2])
qed

theorem classify_text_mode_witness:
  "fst (classify_text example_lib both_files (startup_tasks both_files) (1 / 2) ''Storm warning'') =
     Model_path \<and>
   ensemble_model (startup_tasks both_files) \<noteq> None \<and>
   vectorizer (startup_tasks both_files) \<noteq> None \<and>
   load_first both_files model_paths \<noteq> None \<and>
   vectorizer (initial_globals :: string globals) = None \<and>
   classify_text example_lib both_files initial_globals (1 / 2) ''Storm warning'' =
     (Keyword_fallback, classify_text_keywords (1 / 2) (Some ''Storm warning''))"
proof -
  have m: "fst (classify_text example_lib both_files (startup_tasks both_files) (1 / 2) ''Storm warning'') =
     Model_path"
    by (simp add: classify_text_def startup_both_files svm_example)
  have v: "vectorizer (initial_globals :: string globals) = None"
    by (simp add: initial_globals_def)
  note t1 = classify_text_mode
    [of example_lib both_files "startup_tasks both_files" "1 / 2" "''Storm warning''"]
  note t2 = classify_text_mode
    [of example_lib both_files initial_globals "1 / 2" "''Storm warning''"]
  from t1 m have a: "ensemble_model (startup_tasks both_files) \<noteq> None \<and>
     vectorizer (startup_tasks both_files) \<noteq> None \<and> load_first both_files model_paths \<noteq> None"
    by blast
  from t2 v have b: "classify_text example_lib both_files initial_globals (1 / 2) ''Storm warning'' =
     (Keyword_fallback, classify_text_keywords (1 / 2) (Some ''Storm warning''))"
    by blast
  from m a v b show ?thesis by blast
qed

text \<open>
  Startup finds the vectorizer only; later the model file is there. \<open>classify_text\<close> then
  answers from the model, though the model was not loaded at startup, and \<open>model_status\<close>
  reports the fallback.
\<close>

theorem classify_text_mode_counterexample:
  "ensemble_model (startup_tasks vectorizer_only) = None \<and>
   classify_text example_lib both_files (startup_tasks vectorizer_only) (1 / 2) ''Storm warning'' =
     (Model_path, \<lparr>label = ''verified'', confidence = 9 / 10\<rparr>) \<and>
   model_status (startup_tasks vectorizer_only) = (''fallback'', False)"
  by (simp add: startup_vectorizer_only classify_text_def svm_example model_status_def)

lemma hourly_update_task_rounds:
  "hourly_update_task cycle i n = concat (map (hourly_round cycle) [i..<i + n])"
proof (induction n arbitrary: i)
  case 0
  then show ?case by simp
next
  case (Suc n)
  have "[i..<i + Suc n] = i # [Suc i..<Suc i + n]"
    by (simp add: upt_conv_Cons)
  then show ?case
    by (simp add: Suc.IH hourly_round_def)
qed

text \<open>
  Claim C2, as amended. After startup no background task is running: the statement that
  creates it is commented out and \<open>background_task\<close> is \<open>None\<close>. The loop
  \<open>hourly_update_task\<close>, when it runs, does round after round without end: its first \<open>n\<close>
  rounds are \<open>n\<close> times one cycle, its lines in the log and a wait of 3600 seconds, whatever
  the cycles end with; a cycle that raises is logged and the wait follows.
\<close>

theorem startup_no_background_task:
  "background_task (startup_tasks joblib_load) = None \<and>
   hourly_update_task cycle i n = concat (map (hourly_round cycle) [i..<i + n]) \<and>
   length (hourly_update_task cycle i n) = 4 * n \<and>
   hourly_round (\<lambda>j. Raised e) j =
     [Log_info ''Starting hourly Reddit data update...'', Cycle_invoked j,
      Log_error (''Error in hourly update: '' @ e), Sleep 3600]"
proof -
  have "length (concat (map (hourly_round cycle) xs)) = 4 * length xs" for xs
    by (induction xs) (simp_all add: hourly_round_def)
  then have "length (hourly_update_task cycle i n) = 4 * n"
    by (simp add: hourly_update_task_rounds)
  then show ?thesis
    using startup_globals [of joblib_load] hourly_update_task_rounds [of cycle i n]
    by (simp add: hourly_round_def)
qed

text \<open>With both model files in place, startup leaves \<open>background_task\<close> at \<open>None\<close>.\<close>

theorem startup_background_task_counterexample:
  "background_task (startup_tasks both_files) = None"
  by (simp add: startup_both_files)


section \<open>The keyword classifier: proofs\<close>

lemma float_literals_idem:
  "fl (fl (70 / 100)) = fl (70 / 100)"
  "fl (fl (20 / 100)) = fl (20 / 100)"
  "fl (fl (55 / 100)) = fl (55 / 100)"
  "fl (fl (50 / 100)) = fl (50 / 100)"
  "fl (fl (15 / 100)) = fl (15 / 100)"
  by code_simp+

lemma float_literals_order:
  "fl (fl (70 / 100) + fl (20 / 100)) \<le> fl (90 / 100)"
  "fl (fl (50 / 100) + fl (15 / 100)) \<le> fl (65 / 100)"
  "fl (55 / 100) \<le> fl (85 / 100)"
  "fl (40 / 100) \<le> fl (75 / 100)"
  "fl (90 / 100) \<le> 1"
  "fl (95 / 100) \<le> 1"
  "fl (85 / 100) \<le> 1"
  "fl (75 / 100) \<le> 1"
  "fl (65 / 100) \<le> 1"
  by code_simp+

lemma fmul_commute: "fmul x y = fmul y x"
  by (simp add: fmul_def mult.commute)

lemma fmul_nonneg: "0 \<le> x \<Longrightarrow> 0 \<le> y \<Longrightarrow> 0 \<le> fmul x y"
  unfolding fmul_def by (rule fl_nonneg) simp

lemma fadd_nonneg: "0 \<le> x \<Longrightarrow> 0 \<le> y \<Longrightarrow> 0 \<le> fadd x y"
  unfolding fadd_def by (rule fl_nonneg) simp

lemma float_of_nat_nonneg: "0 \<le> float_of_nat n"
  unfolding float_of_nat_def by (rule fl_nonneg) simp

lemma int_truediv_nonneg: "0 \<le> int_truediv m n"
  unfolding int_truediv_def by (rule fl_nonneg) simp

lemma fl_lit_nonneg: "0 \<le> fl (numeral a / numeral b)"
  by (rule fl_nonneg) simp

lemma float_literals_nonneg:
  "0 \<le> fl (40 / 100)" "0 \<le> fl (50 / 100)" "0 \<le> fl (55 / 100)" "0 \<le> fl (70 / 100)"
  "0 \<le> fl (90 / 100)" "0 \<le> fl (95 / 100)"
  by (rule fl_lit_nonneg)+

text \<open>Adding a nonnegative float to a float gives no less.\<close>

lemma fadd_ge:
  assumes "fl a = a" and "0 \<le> a" and "0 \<le> m"
  shows "a \<le> fadd a m"
proof -
  have "fl a \<le> fl (a + m)" using assms(2,3) by (intro fl_mono) simp_all
  then show ?thesis unfolding fadd_def assms(1) .
qed

lemma rnd_branch:
  assumes "0 \<le> rnd" and "rnd < 1"
    and a: "fl a = a" "0 \<le> a" and s: "fl s = s" "0 \<le> s"
  shows "a \<le> fadd a (fmul rnd s) \<and> fadd a (fmul rnd s) \<le> fl (a + s)"
proof -
  have m0: "0 \<le> fmul rnd s" using assms(1) s(2) by (rule fmul_nonneg)
  have "rnd * s \<le> 1 * s" using assms(2) s(2) by (intro mult_right_mono) simp_all
  then have "rnd * s \<le> s" by simp
  moreover have "0 \<le> rnd * s" using assms(1) s(2) by simp
  ultimately have "fl (rnd * s) \<le> fl s" by (intro fl_mono)
  then have m1: "fmul rnd s \<le> s" unfolding fmul_def s(1) .
  have lo: "a \<le> fadd a (fmul rnd s)" using a m0 by (rule fadd_ge)
  have "fl (a + fmul rnd s) \<le> fl (a + s)"
    using a(2) m0 m1 by (intro fl_mono) simp_all
  then show ?thesis using lo unfolding fadd_def by simp
qed

lemma classify_none:
  "classify_text_keywords rnd None = \<lparr>label = ''unknown'', confidence = 5 / 10\<rparr>"
  by (simp only: classify_text_keywords_def option.case fl_half)

lemma classify_verified:
  "rumor_score text < verified_score text \<Longrightarrow>
   classify_text_keywords rnd (Some text) =
     \<lparr>label = ''verified'',
      confidence = min (fl (95 / 100))
        (fadd (fadd (fl (60 / 100)) (fmul (fl (8 / 100)) (float_of_nat (verified_score text))))
           (min (fl (15 / 100)) (int_truediv (word_count text) 200)))\<rparr>"
  by (simp add: classify_text_keywords_def Let_def fmul_def mult.commute)

lemma classify_rumor:
  "verified_score text < rumor_score text \<Longrightarrow>
   classify_text_keywords rnd (Some text) =
     \<lparr>label = ''rumor'',
      confidence = min (fl (90 / 100))
        (fadd (fadd (fl (55 / 100)) (fmul (fl (6 / 100)) (float_of_nat (rumor_score text))))
           (min (fl (10 / 100)) (fmul (fl (3 / 100)) (float_of_nat (rumor_score text)))))\<rparr>"
  by (simp add: classify_text_keywords_def Let_def fmul_def mult.commute)

lemma classify_official:
  "verified_score text = 0 \<Longrightarrow> rumor_score text = 0 \<Longrightarrow> has_official_source text \<Longrightarrow>
   classify_text_keywords rnd (Some text) =
     \<lparr>label = ''verified'', confidence = fadd (fl (70 / 100)) (fmul rnd (fl (20 / 100)))\<rparr>"
  by (simp add: classify_text_keywords_def)

lemma classify_news:
  "verified_score text = 0 \<Longrightarrow> rumor_score text = 0 \<Longrightarrow> \<not> has_official_source text \<Longrightarrow>
   uncertainty_score text < news_score text \<Longrightarrow>
   classify_text_keywords rnd (Some text) =
     \<lparr>label = ''verified'',
      confidence = min (fl (85 / 100))
        (fadd (fadd (fl (55 / 100)) (fmul (float_of_nat (news_score text)) (fl (5 / 100))))
           (fmul rnd (fl (10 / 100))))\<rparr>"
  by (simp add: classify_text_keywords_def Let_def)

lemma classify_uncertain:
  "verified_score text = 0 \<Longrightarrow> rumor_score text = 0 \<Longrightarrow> \<not> has_official_source text \<Longrightarrow>
   news_score text \<le> uncertainty_score text \<Longrightarrow>
   classify_text_keywords rnd (Some text) =
     \<lparr>label = ''rumor'',
      confidence = min (fl (75 / 100)) (max (fl (40 / 100))
        (if 0 < uncertainty_score text
         then fadd (fadd (fl (45 / 100)) (fmul rnd (fl (15 / 100))))
                (fmul (float_of_nat (uncertainty_score text)) (fl (3 / 100)))
         else fadd (fadd (fl (45 / 100)) (fmul rnd (fl (15 / 100))))
                (int_truediv (word_count text) 1000)))\<rparr>"
  by (simp add: classify_text_keywords_def Let_def)

lemma classify_tie:
  "verified_score text = rumor_score text \<Longrightarrow> verified_score text \<noteq> 0 \<Longrightarrow>
   classify_text_keywords rnd (Some text) =
     \<lparr>label = ''rumor'', confidence = fadd (fl (50 / 100)) (fmul rnd (fl (15 / 100)))\<rparr>"
  by (simp add: classify_text_keywords_def)

lemma official_range:
  assumes "0 \<le> rnd" and "rnd < 1"
  shows "fl (70 / 100) \<le> fadd (fl (70 / 100)) (fmul rnd (fl (20 / 100))) \<and>
         fadd (fl (70 / 100)) (fmul rnd (fl (20 / 100))) \<le> fl (90 / 100)"
  using rnd_branch [OF assms float_literals_idem(1) fl_lit_nonneg float_literals_idem(2) fl_lit_nonneg]
    float_literals_order(1) by linarith

lemma tie_range:
  assumes "0 \<le> rnd" and "rnd < 1"
  shows "fl (50 / 100) \<le> fadd (fl (50 / 100)) (fmul rnd (fl (15 / 100))) \<and>
         fadd (fl (50 / 100)) (fmul rnd (fl (15 / 100))) \<le> fl (65 / 100)"
  using rnd_branch [OF assms float_literals_idem(4) fl_lit_nonneg float_literals_idem(5) fl_lit_nonneg]
    float_literals_order(2) by linarith

lemma news_range:
  assumes "0 \<le> rnd"
  shows "fl (55 / 100) \<le> min (fl (85 / 100))
           (fadd (fadd (fl (55 / 100)) (fmul (float_of_nat k) (fl (5 / 100)))) (fmul rnd (fl (10 / 100)))) \<and>
         min (fl (85 / 100))
           (fadd (fadd (fl (55 / 100)) (fmul (float_of_nat k) (fl (5 / 100)))) (fmul rnd (fl (10 / 100))))
           \<le> fl (85 / 100)"
proof -
  let ?base = "fadd (fl (55 / 100)) (fmul (float_of_nat k) (fl (5 / 100)))"
  have b: "fl (55 / 100) \<le> ?base"
    by (rule fadd_ge [OF float_literals_idem(3) fl_lit_nonneg])
       (rule fmul_nonneg [OF float_of_nat_nonneg fl_lit_nonneg])
  have rv: "0 \<le> fmul rnd (fl (10 / 100))" using assms fl_lit_nonneg by (rule fmul_nonneg)
  have "fl (fl (55 / 100)) \<le> fl (?base + fmul rnd (fl (10 / 100)))"
    using b rv float_literals_nonneg by (intro fl_mono) simp_all
  then have "fl (55 / 100) \<le> fadd ?base (fmul rnd (fl (10 / 100)))"
    unfolding fadd_def [of ?base] float_literals_idem(3) .
  then show ?thesis using float_literals_order(3) by simp
qed

lemma uncertain_range:
  "fl (40 / 100) \<le> min (fl (75 / 100)) (max (fl (40 / 100)) x) \<and>
   min (fl (75 / 100)) (max (fl (40 / 100)) x) \<le> fl (75 / 100)"
  using float_literals_order(4) by simp


lemma confidence_unit_interval:
  assumes "0 \<le> rnd" and "rnd < 1"
  shows "0 \<le> confidence (classify_text_keywords rnd text_arg) \<and>
         confidence (classify_text_keywords rnd text_arg) \<le> 1"
proof (cases text_arg)
  case None
  then show ?thesis by (simp add: classify_none)
next
  case (Some body)
  note nn = fl_lit_nonneg fmul_nonneg fadd_nonneg float_of_nat_nonneg int_truediv_nonneg
  consider (v) "rumor_score body < verified_score body"
    | (r) "verified_score body < rumor_score body"
    | (t) "verified_score body = rumor_score body" "verified_score body \<noteq> 0"
    | (o) "verified_score body = 0" "rumor_score body = 0" "has_official_source body"
    | (n) "verified_score body = 0" "rumor_score body = 0" "\<not> has_official_source body"
          "uncertainty_score body < news_score body"
    | (u) "verified_score body = 0" "rumor_score body = 0" "\<not> has_official_source body"
          "news_score body \<le> uncertainty_score body"
    by (cases "verified_score body" "rumor_score body" rule: linorder_cases) force+
  then show ?thesis
  proof cases
    case v
    have "0 \<le> fadd (fadd (fl (60 / 100)) (fmul (fl (8 / 100)) (float_of_nat (verified_score body))))
           (min (fl (15 / 100)) (int_truediv (word_count body) 200))"
      by (intro nn min.boundedI)
    then show ?thesis unfolding Some classify_verified [OF v] classification.simps
      using float_literals_order(6) float_literals_nonneg(6) by linarith
  next
    case r
    have "0 \<le> fadd (fadd (fl (55 / 100)) (fmul (fl (6 / 100)) (float_of_nat (rumor_score body))))
           (min (fl (10 / 100)) (fmul (fl (3 / 100)) (float_of_nat (rumor_score body))))"
      by (intro nn min.boundedI)
    then show ?thesis unfolding Some classify_rumor [OF r] classification.simps
      using float_literals_order(5) float_literals_nonneg(5) by linarith
  next
    case t
    show ?thesis unfolding Some classify_tie [OF t]
      using tie_range [OF assms] float_literals_order(9) float_literals_nonneg
      by (simp only: classification.simps) linarith
  next
    case o
    show ?thesis unfolding Some classify_official [OF o]
      using official_range [OF assms] float_literals_order(5) float_literals_nonneg
      by (simp only: classification.simps) linarith
  next
    case n
    show ?thesis unfolding Some classify_news [OF n]
      using news_range [OF assms(1), of "news_score body"] float_literals_order(7)
        float_literals_nonneg
      by (simp only: classification.simps) linarith
  next
    case u
    show ?thesis unfolding Some classify_uncertain [OF u]
      using uncertain_range [of "if 0 < uncertainty_score body
         then fadd (fadd (fl (45 / 100)) (fmul rnd (fl (15 / 100))))
                (fmul (float_of_nat (uncertainty_score body)) (fl (3 / 100)))
         else fadd (fadd (fl (45 / 100)) (fmul rnd (fl (15 / 100))))
                (int_truediv (word_count body) 1000)"]
        float_literals_order(8) float_literals_nonneg(1)
      by (simp only: classification.simps) (meson order_trans)
  qed
qed

text \<open>
  Claim C4. The numbers of the classifier are binary64 floats: a literal \<open>0.60\<close> is the
  float \<open>fl (60 / 100)\<close>, and \<open>+\<close>, \<open>*\<close> and \<open>/\<close> round their exact result to the nearest
  float (\<open>fadd\<close>, \<open>fmul\<close>, \<open>int_truediv\<close>). Let the random number be in \<open>[0, 1)\<close>. Every
  result of \<open>classify_text_keywords\<close> has a confidence in \<open>[0, 1]\<close>. When the verified
  keywords outnumber the rumor keywords the result is \<open>verified\<close> with confidence
  \<open>min(0.95, 0.60 + 0.08 * verified + min(0.15, words / 200))\<close>, each operation rounded;
  when the rumor keywords outnumber the verified ones it is \<open>rumor\<close> with confidence
  \<open>min(0.90, 0.55 + 0.06 * rumor + min(0.10, 0.03 * rumor))\<close>, each operation rounded.
  With no keyword at all: an authority term gives \<open>verified\<close> between the floats \<open>0.70\<close>
  and \<open>0.90\<close>, more news indicators than uncertainty indicators give \<open>verified\<close> between
  \<open>0.55\<close> and \<open>0.85\<close>, otherwise \<open>rumor\<close> between \<open>0.40\<close> and \<open>0.75\<close>. A tie of nonzero
  counts gives \<open>rumor\<close> between \<open>0.50\<close> and \<open>0.65\<close>. The bounds are the floats that the
  literals denote, and the random number may be any rational in \<open>[0, 1)\<close>, a float or not.
\<close>

theorem classify_text_keywords_policy:
  assumes "0 \<le> rnd" and "rnd < 1"
  shows "0 \<le> confidence (classify_text_keywords rnd text_arg) \<and>
     confidence (classify_text_keywords rnd text_arg) \<le> 1 \<and>
     (rumor_score text < verified_score text \<longrightarrow>
        classify_text_keywords rnd (Some text) =
          \<lparr>label = ''verified'',
           confidence = min (fl (95 / 100))
             (fadd (fadd (fl (60 / 100)) (fmul (fl (8 / 100)) (float_of_nat (verified_score text))))
                (min (fl (15 / 100)) (int_truediv (word_count text) 200)))\<rparr>) \<and>
     (verified_score text < rumor_score text \<longrightarrow>
        classify_text_keywords rnd (Some text) =
          \<lparr>label = ''rumor'',
           confidence = min (fl (90 / 100))
             (fadd (fadd (fl (55 / 100)) (fmul (fl (6 / 100)) (float_of_nat (rumor_score text))))
                (min (fl (10 / 100)) (fmul (fl (3 / 100)) (float_of_nat (rumor_score text)))))\<rparr>) \<and>
     (verified_score text = 0 \<and> rumor_score text = 0 \<and> has_official_source text \<longrightarrow>
        label (classify_text_keywords rnd (Some text)) = ''verified'' \<and>
        fl (70 / 100) \<le> confidence (classify_text_keywords rnd (Some text)) \<and>
        confidence (classify_text_keywords rnd (Some text)) \<le> fl (90 / 100)) \<and>
     (verified_score text = 0 \<and> rumor_score text = 0 \<and> \<not> has_official_source text \<and>
      uncertainty_score text < news_score text \<longrightarrow>
        label (classify_text_keywords rnd (Some text)) = ''verified'' \<and>
        fl (55 / 100) \<le> confidence (classify_text_keywords rnd (Some text)) \<and>
        confidence (classify_text_keywords rnd (Some text)) \<le> fl (85 / 100)) \<and>
     (verified_score text = 0 \<and> rumor_score text = 0 \<and> \<not> has_official_source text \<and>
      news_score text \<le> uncertainty_score text \<longrightarrow>
        label (classify_text_keywords rnd (Some text)) = ''rumor'' \<and>
        fl (40 / 100) \<le> confidence (classify_text_keywords rnd (Some text)) \<and>
        confidence (classify_text_keywords rnd (Some text)) \<le> fl (75 / 100)) \<and>
     (verified_score text = rumor_score text \<and> verified_score text \<noteq> 0 \<longrightarrow>
        label (classify_text_keywords rnd (Some text)) = ''rumor'' \<and>
        fl (50 / 100) \<le> confidence (classify_text_keywords rnd (Some text)) \<and>
        confidence (classify_text_keywords rnd (Some text)) \<le> fl (65 / 100))"
proof (intro conjI impI)
  show "0 \<le> confidence (classify_text_keywords rnd text_arg)"
    and "confidence (classify_text_keywords rnd text_arg) \<le> 1"
    using confidence_unit_interval [OF assms, of text_arg] by blast+
next
  assume "rumor_score text < verified_score text"
  then show "classify_text_keywords rnd (Some text) =
          \<lparr>label = ''verified'',
           confidence = min (fl (95 / 100))
             (fadd (fadd (fl (60 / 100)) (fmul (fl (8 / 100)) (float_of_nat (verified_score text))))
                (min (fl (15 / 100)) (int_truediv (word_count text) 200)))\<rparr>"
    by (rule classify_verified)
next
  assume "verified_score text < rumor_score text"
  then show "classify_text_keywords rnd (Some text) =
          \<lparr>label = ''rumor'',
           confidence = min (fl (90 / 100))
             (fadd (fadd (fl (55 / 100)) (fmul (fl (6 / 100)) (float_of_nat (rumor_score text))))
                (min (fl (10 / 100)) (fmul (fl (3 / 100)) (float_of_nat (rumor_score text)))))\<rparr>"
    by (rule classify_rumor)
next
  assume a: "verified_score text = 0 \<and> rumor_score text = 0 \<and> has_official_source text"
  then have e: "classify_text_keywords rnd (Some text) =
     \<lparr>label = ''verified'', confidence = fadd (fl (70 / 100)) (fmul rnd (fl (20 / 100)))\<rparr>"
    by (intro classify_official) simp_all
  show "label (classify_text_keywords rnd (Some text)) = ''verified''"
    and "fl (70 / 100) \<le> confidence (classify_text_keywords rnd (Some text))"
    and "confidence (classify_text_keywords rnd (Some text)) \<le> fl (90 / 100)"
    unfolding e classification.simps using official_range [OF assms] by simp_all
next
  assume a: "verified_score text = 0 \<and> rumor_score text = 0 \<and> \<not> has_official_source text \<and>
      uncertainty_score text < news_score text"
  then have e: "classify_text_keywords rnd (Some text) =
     \<lparr>label = ''verified'',
      confidence = min (fl (85 / 100))
        (fadd (fadd (fl (55 / 100)) (fmul (float_of_nat (news_score text)) (fl (5 / 100))))
           (fmul rnd (fl (10 / 100))))\<rparr>"
    by (intro classify_news) simp_all
  show "label (classify_text_keywords rnd (Some text)) = ''verified''"
    and "fl (55 / 100) \<le> confidence (classify_text_keywords rnd (Some text))"
    and "confidence (classify_text_keywords rnd (Some text)) \<le> fl (85 / 100)"
    unfolding e classification.simps using news_range [OF assms(1), of "news_score text"]
    by simp_all
next
  assume a: "verified_score text = 0 \<and> rumor_score text = 0 \<and> \<not> has_official_source text \<and>
      news_score text \<le> uncertainty_score text"
  then have e: "classify_text_keywords rnd (Some text) =
     \<lparr>label = ''rumor'',
      confidence = min (fl (75 / 100)) (max (fl (40 / 100))
        (if 0 < uncertainty_score text
         then fadd (fadd (fl (45 / 100)) (fmul rnd (fl (15 / 100))))
                (fmul (float_of_nat (uncertainty_score text)) (fl (3 / 100)))
         else fadd (fadd (fl (45 / 100)) (fmul rnd (fl (15 / 100))))
                (int_truediv (word_count text) 1000)))\<rparr>"
    by (intro classify_uncertain) simp_all
  show "label (classify_text_keywords rnd (Some text)) = ''rumor''"
    and "fl (40 / 100) \<le> confidence (classify_text_keywords rnd (Some text))"
    and "confidence (classify_text_keywords rnd (Some text)) \<le> fl (75 / 100)"
    unfolding e classification.simps using uncertain_range by simp_all
next
  assume a: "verified_score text = rumor_score text \<and> verified_score text \<noteq> 0"
  then have e: "classify_text_keywords rnd (Some text) =
     \<lparr>label = ''rumor'', confidence = fadd (fl (50 / 100)) (fmul rnd (fl (15 / 100)))\<rparr>"
    by (intro classify_tie) simp_all
  show "label (classify_text_keywords rnd (Some text)) = ''rumor''"
    and "fl (50 / 100) \<le> confidence (classify_text_keywords rnd (Some text))"
    and "confidence (classify_text_keywords rnd (Some text)) \<le> fl (65 / 100)"
    unfolding e classification.simps using tie_range [OF assms] by simp_all
qed

lemma scores_verified_example:
  "verified_score ''police'' = 1 \<and> rumor_score ''police'' = 0 \<and> word_count ''police'' = 1"
  by code_simp

lemma confidence_verified_example:
  "min (fl (95 / 100))
     (fadd (fadd (fl (60 / 100)) (fmul (fl (8 / 100)) (float_of_nat 1)))
        (min (fl (15 / 100)) (int_truediv 1 200))) = 6169931489497579 / 9007199254740992"
  by code_simp

lemma scores_rumor_example:
  "verified_score ''This is a fake hoax'' = 0 \<and> rumor_score ''This is a fake hoax'' = 2"
  by code_simp

lemma confidence_rumor_example:
  "min (fl (90 / 100))
     (fadd (fadd (fl (55 / 100)) (fmul (fl (6 / 100)) (float_of_nat 2)))
        (min (fl (10 / 100)) (fmul (fl (3 / 100)) (float_of_nat 2)))) =
   1643813863990231 / 2251799813685248"
  by code_simp

lemma scores_official_example:
  "verified_score ''Emergency in town'' = 0 \<and> rumor_score ''Emergency in town'' = 0 \<and>
   has_official_source ''Emergency in town''"
  by code_simp

lemma scores_news_example:
  "verified_score ''It was reported today'' = 0 \<and> rumor_score ''It was reported today'' = 0 \<and>
   \<not> has_official_source ''It was reported today'' \<and>
   uncertainty_score ''It was reported today'' = 0 \<and> news_score ''It was reported today'' = 1"
  by code_simp

lemma scores_uncertain_example:
  "verified_score ''It might rain'' = 0 \<and> rumor_score ''It might rain'' = 0 \<and>
   \<not> has_official_source ''It might rain'' \<and>
   uncertainty_score ''It might rain'' = 1 \<and> news_score ''It might rain'' = 0"
  by code_simp

lemma scores_tie_example:
  "verified_score ''Official rumor'' = 1 \<and> rumor_score ''Official rumor'' = 1"
  by code_simp

theorem classify_text_keywords_policy_witness:
  "(0::rat) \<le> 1 / 2 \<and> (1 / 2 :: rat) < 1 \<and>
   rumor_score ''police'' < verified_score ''police'' \<and>
   classify_text_keywords (1 / 2) (Some ''police'') =
     \<lparr>label = ''verified'', confidence = 6169931489497579 / 9007199254740992\<rparr> \<and>
   verified_score ''This is a fake hoax'' < rumor_score ''This is a fake hoax'' \<and>
   classify_text_keywords (1 / 2) (Some ''This is a fake hoax'') =
     \<lparr>label = ''rumor'', confidence = 1643813863990231 / 2251799813685248\<rparr> \<and>
   (verified_score ''Emergency in town'' = 0 \<and> rumor_score ''Emergency in town'' = 0 \<and>
    has_official_source ''Emergency in town'') \<and>
   label (classify_text_keywords (1 / 2) (Some ''Emergency in town'')) = ''verified'' \<and>
   fl (70 / 100) \<le> confidence (classify_text_keywords (1 / 2) (Some ''Emergency in town'')) \<and>
   (verified_score ''It was reported today'' = 0 \<and> rumor_score ''It was reported today'' = 0 \<and>
    \<not> has_official_source ''It was reported today'' \<and>
    uncertainty_score ''It was reported today'' < news_score ''It was reported today'') \<and>
   label (classify_text_keywords (1 / 2) (Some ''It was reported today'')) = ''verified'' \<and>
   confidence (classify_text_keywords (1 / 2) (Some ''It was reported today'')) \<le> fl (85 / 100) \<and>
   (verified_score ''It might rain'' = 0 \<and> rumor_score ''It might rain'' = 0 \<and>
    \<not> has_official_source ''It might rain'' \<and>
    news_score ''It might rain'' \<le> uncertainty_score ''It might rain'') \<and>
   label (classify_text_keywords (1 / 2) (Some ''It might rain'')) = ''rumor'' \<and>
   confidence (classify_text_keywords (1 / 2) (Some ''It might rain'')) \<le> fl (75 / 100) \<and>
   (verified_score ''Official rumor'' = rumor_score ''Official rumor'' \<and>
    verified_score ''Official rumor'' \<noteq> 0) \<and>
   label (classify_text_keywords (1 / 2) (Some ''Official rumor'')) = ''rumor'' \<and>
   confidence (classify_text_keywords (1 / 2) (Some ''Official rumor'')) \<le> fl (65 / 100) \<and>
   confidence (classify_text_keywords (1 / 2) None) \<le> 1"
proof -
  have r0: "(0::rat) \<le> 1 / 2" and r1: "(1 / 2 :: rat) < 1" by simp_all
  note p = classify_text_keywords_policy [OF r0 r1]
  have v: "rumor_score ''police'' < verified_score ''police''"
    using scores_verified_example by simp
  have "classify_text_keywords (1 / 2) (Some ''police'') =
     \<lparr>label = ''verified'',
      confidence = min (fl (95 / 100))
        (fadd (fadd (fl (60 / 100)) (fmul (fl (8 / 100)) (float_of_nat (verified_score ''police''))))
           (min (fl (15 / 100)) (int_truediv (word_count ''police'') 200)))\<rparr>"
    using p [of None "''police''"] v by blast
  then have v': "classify_text_keywords (1 / 2) (Some ''police'') =
     \<lparr>label = ''verified'', confidence = 6169931489497579 / 9007199254740992\<rparr>"
    by (simp only: scores_verified_example confidence_verified_example)
  have r: "verified_score ''This is a fake hoax'' < rumor_score ''This is a fake hoax''"
    using scores_rumor_example by simp
  have "classify_text_keywords (1 / 2) (Some ''This is a fake hoax'') =
     \<lparr>label = ''rumor'',
      confidence = min (fl (90 / 100))
        (fadd (fadd (fl (55 / 100))
           (fmul (fl (6 / 100)) (float_of_nat (rumor_score ''This is a fake hoax''))))
           (min (fl (10 / 100))
              (fmul (fl (3 / 100)) (float_of_nat (rumor_score ''This is a fake hoax'')))))\<rparr>"
    using p [of None "''This is a fake hoax''"] r by blast
  then have r': "classify_text_keywords (1 / 2) (Some ''This is a fake hoax'') =
     \<lparr>label = ''rumor'', confidence = 1643813863990231 / 2251799813685248\<rparr>"
    by (simp only: scores_rumor_example confidence_rumor_example)
  have o: "verified_score ''Emergency in town'' = 0 \<and> rumor_score ''Emergency in town'' = 0 \<and>
    has_official_source ''Emergency in town''"
    by (rule scores_official_example)
  have o': "label (classify_text_keywords (1 / 2) (Some ''Emergency in town'')) = ''verified'' \<and>
     fl (70 / 100) \<le> confidence (classify_text_keywords (1 / 2) (Some ''Emergency in town''))"
    using p [of None "''Emergency in town''"] o by blast
  have n: "verified_score ''It was reported today'' = 0 \<and> rumor_score ''It was reported today'' = 0 \<and>
    \<not> has_official_source ''It was reported today'' \<and>
    uncertainty_score ''It was reported today'' < news_score ''It was reported today''"
    using scores_news_example by simp
  have n': "label (classify_text_keywords (1 / 2) (Some ''It was reported today'')) = ''verified'' \<and>
     confidence (classify_text_keywords (1 / 2) (Some ''It was reported today'')) \<le> fl (85 / 100)"
    using p [of None "''It was reported today''"] n by blast
  have u: "verified_score ''It might rain'' = 0 \<and> rumor_score ''It might rain'' = 0 \<and>
    \<not> has_official_source ''It might rain'' \<and>
    news_score ''It might rain'' \<le> uncertainty_score ''It might rain''"
    using scores_uncertain_example by simp
  have u': "label (classify_text_keywords (1 / 2) (Some ''It might rain'')) = ''rumor'' \<and>
     confidence (classify_text_keywords (1 / 2) (Some ''It might rain'')) \<le> fl (75 / 100)"
    using p [of None "''It might rain''"] u by blast
  have t: "verified_score ''Official rumor'' = rumor_score ''Official rumor'' \<and>
    verified_score ''Official rumor'' \<noteq> 0"
    using scores_tie_example by simp
  have t': "label (classify_text_keywords (1 / 2) (Some ''Official rumor'')) = ''rumor'' \<and>
     confidence (classify_text_keywords (1 / 2) (Some ''Official rumor'')) \<le> fl (65 / 100)"
    using p [of None "''Official rumor''"] t by blast
  have z: "confidence (classify_text_keywords (1 / 2) None) \<le> 1"
    using p [of None "[]"] by blast
  show ?thesis
    using r0 r1 v v' r r' o o' n n' u u' t t' z by (intro conjI) (assumption | blast)+
qed

section \<open>The manual triggers: proofs\<close>

lemma handler_answer:
  "handler ep fetch w =
     (case fst (fetch w) of
        Returned \<Rightarrow> Ok_200 ''success''
          (case ep of Force_update \<Rightarrow> ''Manual update completed successfully''
           | Initialize_data \<Rightarrow> ''Real Reddit data fetched and classified successfully'')
      | Raised e \<Rightarrow> Http_exception 503
          ((case ep of Force_update \<Rightarrow> ''Manual update failed: ''
            | Initialize_data \<Rightarrow> ''Reddit API error: '') @ e),
      snd (fetch w))"
  by (cases ep; cases "fetch w"; cases "fst (fetch w)")
     (simp_all add: handler_def force_update_def initialize_data_def)

lemma serve_Cons:
  "serve fetch (ep # eps) w =
     (fst (handler ep fetch w) # fst (serve fetch eps (snd (fetch w))),
      snd (serve fetch eps (snd (fetch w))))"
  by (simp add: handler_answer split_beta)

lemma funpow_cycle:
  "(world_after fetch ^^ n) (snd (fetch w)) = (world_after fetch ^^ Suc n) w"
  using funpow_swap1 [of "world_after fetch" n w] by (simp add: world_after_def)

lemma serve_world:
  "snd (serve fetch reqs w) = (world_after fetch ^^ length reqs) w"
proof (induction reqs arbitrary: w)
  case Nil
  show ?case by simp
next
  case (Cons ep eps)
  show ?case unfolding serve_Cons snd_conv Cons.IH by (simp only: funpow_cycle list.size) simp
qed

lemma serve_answers:
  "fst (serve fetch reqs w) =
     map (\<lambda>i. fst (handler (reqs ! i) fetch ((world_after fetch ^^ i) w))) [0..<length reqs]"
proof (induction reqs arbitrary: w)
  case Nil
  show ?case by simp
next
  case (Cons ep eps)
  have "map (\<lambda>i. fst (handler ((ep # eps) ! i) fetch ((world_after fetch ^^ i) w)))
          [0..<length (ep # eps)] =
        fst (handler ep fetch w) #
        map (\<lambda>i. fst (handler (eps ! i) fetch ((world_after fetch ^^ i) (snd (fetch w)))))
          [0..<length eps]"
    by (simp add: upt_conv_Cons map_Suc_upt [symmetric] funpow_cycle del: upt_Suc funpow.simps)
  then show ?case unfolding serve_Cons fst_conv Cons.IH by simp
qed

text \<open>
  Claim C1, as amended. No manual trigger is rejected: the handlers have no busy answer.
  The triggers \<open>/force-update\<close> and \<open>/initialize-data\<close> are served one after the other, so
  no two cycles run at the same time; but every trigger, also one that arrived while a
  cycle was running, runs a full cycle of its own: after \<open>n\<close> triggers the world is the one
  left by \<open>n\<close> cycles in a row, and there are \<open>n\<close> answers. The answer to the trigger number
  \<open>i\<close> depends on its own cycle alone, the one run after \<open>i\<close> earlier ones: the success
  message when it returns, the HTTP error 503 with the message of the exception when it
  raises.
\<close>

theorem manual_triggers_all_run:
  "length (fst (serve fetch reqs w)) = length reqs \<and>
   snd (serve fetch reqs w) = (world_after fetch ^^ length reqs) w \<and>
   fst (serve fetch reqs w) =
     map (\<lambda>i. case fst (fetch ((world_after fetch ^^ i) w)) of
            Returned \<Rightarrow> Ok_200 ''success''
              (case reqs ! i of Force_update \<Rightarrow> ''Manual update completed successfully''
               | Initialize_data \<Rightarrow> ''Real Reddit data fetched and classified successfully'')
          | Raised e \<Rightarrow> Http_exception 503
              ((case reqs ! i of Force_update \<Rightarrow> ''Manual update failed: ''
                | Initialize_data \<Rightarrow> ''Reddit API error: '') @ e))
       [0..<length reqs]"
  by (simp add: serve_world serve_answers handler_answer)

text \<open>
  Two triggers, the second arriving while the cycle of the first is running: both are
  answered with success, none with busy, and the cycle has run twice.
\<close>

theorem manual_trigger_duplicate_run_counterexample:
  "serve counting_cycle [Force_update, Initialize_data] 0 =
     ([Ok_200 ''success'' ''Manual update completed successfully'',
       Ok_200 ''success'' ''Real Reddit data fetched and classified successfully''], 2)"
  by (simp add: handler_def force_update_def initialize_data_def counting_cycle_def)

section \<open>The text normaliser: what the removal steps keep\<close>

text \<open>A pattern fails where everything that could follow it fails.\<close>

lemma star_loop_fail:
  assumes m: "\<And>st k. (\<And>st'. suffix (rest st') (rest st) \<Longrightarrow> k st' = None) \<Longrightarrow> m st k = None"
    and k: "\<And>st'. suffix (rest st') (rest st) \<Longrightarrow> k st' = None"
  shows "star_loop m n st k = None"
  using k
proof (induction n arbitrary: st)
  case 0
  show ?case using "0.prems" [of st] by simp
next
  case (Suc n)
  have "m st (\<lambda>st'. if length (rest st') < length (rest st)
                      then star_loop m n st' k else None) = None"
  proof (rule m)
    fix st' :: mstate assume s: "suffix (rest st') (rest st)"
    have "star_loop m n st' k = None"
    proof (rule Suc.IH)
      fix st'' :: mstate assume "suffix (rest st'') (rest st')"
      with s have "suffix (rest st'') (rest st)" by (rule suffix_order.trans [rotated])
      then show "k st'' = None" by (rule Suc.prems)
    qed
    then show "(if length (rest st') < length (rest st)
                then star_loop m n st' k else None) = None" by simp
  qed
  moreover have "k st = None" by (rule Suc.prems) simp
  ultimately show ?case by simp
qed

lemma re_match_fail:
  "(\<And>st'. suffix (rest st') (rest st) \<Longrightarrow> k st' = None) \<Longrightarrow> re_match r st k = None"
proof (induction r arbitrary: st k)
  case (Sym p)
  show ?case
  proof (cases "rest st")
    case Nil
    then show ?thesis by simp
  next
    case (Cons c cs)
    have "k (st\<lparr>at_start := False, rest := cs\<rparr>) = None"
      by (rule Sym.prems) (simp add: Cons suffix_Cons)
    then show ?thesis by (simp add: Cons)
  qed
next
  case Eps
  show ?case using Eps.prems [of st] by simp
next
  case (Cat r1 r2)
  have "re_match r1 st (\<lambda>st'. re_match r2 st' k) = None"
  proof (rule Cat.IH(1))
    fix st' :: mstate assume s: "suffix (rest st') (rest st)"
    show "re_match r2 st' k = None"
    proof (rule Cat.IH(2))
      fix st'' :: mstate assume "suffix (rest st'') (rest st')"
      with s have "suffix (rest st'') (rest st)" by (rule suffix_order.trans [rotated])
      then show "k st'' = None" by (rule Cat.prems)
    qed
  qed
  then show ?case by simp
next
  case (Alt r1 r2)
  have "re_match r1 st k = None" using Alt.prems by (rule Alt.IH(1))
  moreover have "re_match r2 st k = None" using Alt.prems by (rule Alt.IH(2))
  ultimately show ?case by simp
next
  case (Star r)
  have "star_loop (re_match r) (length (rest st)) st k = None"
  proof (rule star_loop_fail)
    fix st0 :: mstate and k0 :: "mstate \<Rightarrow> mstate option"
    assume "\<And>st'. suffix (rest st') (rest st0) \<Longrightarrow> k0 st' = None"
    then show "re_match r st0 k0 = None" by (rule Star.IH)
  next
    fix st' :: mstate assume "suffix (rest st') (rest st)"
    then show "k st' = None" by (rule Star.prems)
  qed
  then show ?case by simp
next
  case (Grp r)
  have "re_match r st
       (\<lambda>st'. k (st'\<lparr>group1 := Some (take (length (rest st) - length (rest st')) (rest st))\<rparr>))
     = None"
  proof (rule Grp.IH)
    fix st' :: mstate assume "suffix (rest st') (rest st)"
    then show "k (st'\<lparr>group1 := Some (take (length (rest st) - length (rest st')) (rest st))\<rparr>) = None"
      using Grp.prems [of "st'\<lparr>group1 := Some (take (length (rest st) - length (rest st')) (rest st))\<rparr>"]
      by simp
  qed
  then show ?case by simp
next
  case Bol
  show ?case using Bol.prems [of st] by simp
next
  case Eol
  show ?case using Eol.prems [of st] by simp
qed

lemma re_match_must_leave:
  "must_leave A r \<Longrightarrow> list_all A (rest st) \<Longrightarrow> re_match r st k = None"
proof (induction r arbitrary: st k)
  case (Sym p)
  then show ?case by (cases "rest st") auto
next
  case (Cat r1 r2)
  show ?case
  proof (cases "must_leave A r1")
    case True
    then show ?thesis using Cat.IH(1) Cat.prems(2) by simp
  next
    case False
    then have m2: "must_leave A r2" using Cat.prems(1) by simp
    have "re_match r1 st (\<lambda>st'. re_match r2 st' k) = None"
    proof (rule re_match_fail)
      fix st' :: mstate assume "suffix (rest st') (rest st)"
      then have "list_all A (rest st')"
        using Cat.prems(2) by (auto simp add: suffix_def list_all_iff)
      with m2 show "re_match r2 st' k = None" by (rule Cat.IH(2))
    qed
    then show ?thesis by simp
  qed
next
  case (Alt r1 r2)
  then show ?case by simp
next
  case (Grp r)
  then show ?case by simp
qed simp_all

lemma match_at_must_leave:
  "must_leave A r \<Longrightarrow> list_all A s \<Longrightarrow> match_at r b ma s = None"
  unfolding match_at_def by (rule re_match_must_leave) simp_all

lemma sub_from_no_match:
  "(\<And>u b ma. suffix u s \<Longrightarrow> match_at r b ma u = None) \<Longrightarrow> sub_from r rp b 0 s = s"
proof (induction s arbitrary: b)
  case Nil
  then show ?case by simp
next
  case (Cons c cs)
  have "sub_from r rp False 0 cs = cs"
    by (rule Cons.IH, rule Cons.prems) (simp add: suffix_Cons)
  moreover have "match_at r b False (c # cs) = None" by (rule Cons.prems) simp
  ultimately show ?case by simp
qed

lemma re_sub_must_leave:
  assumes "must_leave A r" and "list_all A s"
  shows "re_sub r rp s = s"
  unfolding re_sub_def
proof (rule sub_from_no_match)
  fix u b ma assume "suffix u s"
  then have "list_all A u" using assms(2) by (auto simp add: suffix_def list_all_iff)
  with assms(1) show "match_at r b ma u = None" by (rule match_at_must_leave)
qed

text \<open>What a match has taken when the pattern takes only characters of one kind.\<close>

lemma star_loop_eats:
  assumes m: "\<And>st k res. m st k = Some res \<Longrightarrow>
      \<exists>st'. k st' = Some res \<and> (\<exists>u. rest st = u @ rest st' \<and> list_all w u)"
  shows "star_loop m n st k = Some res \<Longrightarrow>
      \<exists>st'. k st' = Some res \<and> (\<exists>u. rest st = u @ rest st' \<and> list_all w u)"
proof (induction n arbitrary: st)
  case 0
  then have "k st = Some res" by simp
  then show ?case by (intro exI [of _ st]) simp
next
  case (Suc n)
  let ?K = "\<lambda>st'. if length (rest st') < length (rest st) then star_loop m n st' k else None"
  show ?case
  proof (cases "m st ?K")
    case None
    with Suc.prems have "k st = Some res" by simp
    then show ?thesis by (intro exI [of _ st]) simp
  next
    case (Some r)
    with Suc.prems have "m st ?K = Some res" by simp
    from m [OF this] obtain st1 u1
      where k1: "?K st1 = Some res" and e1: "rest st = u1 @ rest st1" "list_all w u1"
      by blast
    from k1 have "star_loop m n st1 k = Some res" by (simp split: if_splits)
    from Suc.IH [OF this] obtain st2 u2
      where k2: "k st2 = Some res" and e2: "rest st1 = u2 @ rest st2" "list_all w u2"
      by blast
    have "rest st = (u1 @ u2) @ rest st2" "list_all w (u1 @ u2)"
      using e1 e2 by simp_all
    with k2 show ?thesis by blast
  qed
qed

lemma re_match_eats:
  "only_eats w r \<Longrightarrow> re_match r st k = Some res \<Longrightarrow>
   \<exists>st'. k st' = Some res \<and> (\<exists>u. rest st = u @ rest st' \<and> list_all w u)"
proof (induction r arbitrary: st k res)
  case (Sym p)
  from Sym.prems(2) obtain c cs where r: "rest st = c # cs" and p: "p c"
    and k: "k (st\<lparr>at_start := False, rest := cs\<rparr>) = Some res"
    by (cases "rest st") (auto split: if_splits)
  have "rest st = [c] @ rest (st\<lparr>at_start := False, rest := cs\<rparr>)" using r by simp
  moreover have "list_all w [c]" using Sym.prems(1) p by simp
  ultimately show ?case using k by blast
next
  case Eps
  then have "k st = Some res" by simp
  then show ?case by (intro exI [of _ st]) simp
next
  case (Cat r1 r2)
  from Cat.prems have o: "only_eats w r1" "only_eats w r2"
    and "re_match r1 st (\<lambda>st'. re_match r2 st' k) = Some res" by simp_all
  from Cat.IH(1) [OF o(1) this(3)] obtain st1 u1
    where k1: "re_match r2 st1 k = Some res" and e1: "rest st = u1 @ rest st1" "list_all w u1"
    by blast
  from Cat.IH(2) [OF o(2) k1] obtain st2 u2
    where k2: "k st2 = Some res" and e2: "rest st1 = u2 @ rest st2" "list_all w u2"
    by blast
  have "rest st = (u1 @ u2) @ rest st2" "list_all w (u1 @ u2)"
    using e1 e2 by simp_all
  with k2 show ?case by blast
next
  case (Alt r1 r2)
  from Alt.prems have o: "only_eats w r1" "only_eats w r2" by simp_all
  show ?case
  proof (cases "re_match r1 st k")
    case None
    with Alt.prems(2) have "re_match r2 st k = Some res" by simp
    with o(2) show ?thesis by (rule Alt.IH(2))
  next
    case (Some r)
    with Alt.prems(2) have "re_match r1 st k = Some res" by simp
    with o(1) show ?thesis by (rule Alt.IH(1))
  qed
next
  case (Star r)
  from Star.prems have o: "only_eats w r"
    and s: "star_loop (re_match r) (length (rest st)) st k = Some res" by simp_all
  show ?case
  proof (rule star_loop_eats [OF _ s])
    fix st0 :: mstate and k0 :: "mstate \<Rightarrow> mstate option" and res0
    assume "re_match r st0 k0 = Some res0"
    with o show "\<exists>st'. k0 st' = Some res0 \<and> (\<exists>u. rest st0 = u @ rest st' \<and> list_all w u)"
      by (rule Star.IH)
  qed
next
  case (Grp r)
  let ?K = "\<lambda>st'. k (st'\<lparr>group1 := Some (take (length (rest st) - length (rest st')) (rest st))\<rparr>)"
  from Grp.prems have o: "only_eats w r" and "re_match r st ?K = Some res" by simp_all
  from Grp.IH [OF this] obtain st1 u1
    where k1: "?K st1 = Some res" and e1: "rest st = u1 @ rest st1" "list_all w u1"
    by blast
  let ?st = "st1\<lparr>group1 := Some (take (length (rest st) - length (rest st1)) (rest st))\<rparr>"
  have "rest st = u1 @ rest ?st" using e1 by simp
  with k1 e1(2) show ?case by blast
next
  case Bol
  then have "k st = Some res" by (simp split: if_splits)
  then show ?case by (intro exI [of _ st]) simp
next
  case Eol
  then have "k st = Some res" by (simp split: if_splits)
  then show ?case by (intro exI [of _ st]) simp
qed

lemma match_at_eats:
  assumes "only_eats w r" and "match_at r b ma s = Some st"
  shows "\<exists>u. s = u @ rest st \<and> list_all w u \<and> (ma \<longrightarrow> u \<noteq> [])"
proof -
  let ?k = "\<lambda>st. if ma \<and> length (rest st) = length s then None else Some st"
  from assms(2) have "re_match r \<lparr>at_start = b, rest = s, group1 = None\<rparr> ?k = Some st"
    by (simp add: match_at_def)
  from re_match_eats [OF assms(1) this] obtain st' u
    where k: "?k st' = Some st" and e: "s = u @ rest st'" "list_all w u"
    by auto
  from k have eq: "st' = st" and adv: "ma \<longrightarrow> length (rest st') \<noteq> length s"
    by (auto split: if_splits)
  from adv e(1) have "ma \<longrightarrow> u \<noteq> []" by auto
  with e eq show ?thesis by blast
qed

text \<open>\<open>re.sub\<close> with a constant replacement.\<close>

lemma sub_from_chars:
  "rp = Const x \<Longrightarrow> set (sub_from r rp b n s) \<subseteq> set s \<union> set x"
proof (induction r rp b n s rule: sub_from.induct)
  case (1 r rp b n)
  show ?case by simp
next
  case (2 r rp b n c cs)
  then show ?case by auto
next
  case (3 r rp b)
  then show ?case by (auto simp add: expand_def split: option.splits)
next
  case (4 r rp b c cs)
  show ?case
  proof (cases "match_at r b False (c # cs)")
    case None
    with 4 show ?thesis by auto
  next
    case (Some st)
    note m = Some
    show ?thesis
    proof (cases "length (rest st) < length (c # cs)")
      case True
      with m 4(2) [OF m True "4.prems"] show ?thesis
        using "4.prems" by (auto simp add: expand_def)
    next
      case False
      note f = False
      show ?thesis
      proof (cases "match_at r b True (c # cs)")
        case None
        with m f 4(3) [OF m f None "4.prems"] show ?thesis
          using "4.prems" by (auto simp add: expand_def)
      next
        case (Some st')
        with m f 4(4) [OF m f Some "4.prems"] show ?thesis
          using "4.prems" by (auto simp add: expand_def)
      qed
    qed
  qed
qed


lemma eaten_Cons:
  assumes "c # cs = u @ t" and "u \<noteq> []" and "list_all w u"
  shows "w c \<and> list_all w (take (length cs - length t) cs)"
proof -
  from assms(1,2) obtain u' where u: "u = c # u'" and cs: "cs = u' @ t"
    by (cases u) auto
  then show ?thesis using assms(3) by simp
qed

lemma sub_from_filter:
  "only_eats w r \<Longrightarrow> rp = Const x \<Longrightarrow> list_all w x \<Longrightarrow> list_all w (take n s) \<Longrightarrow>
   filter (\<lambda>c. \<not> w c) (sub_from r rp b n s) = filter (\<lambda>c. \<not> w c) s"
proof (induction r rp b n s rule: sub_from.induct)
  case (1 r rp b n)
  show ?case by simp
next
  case (2 r rp b n c cs)
  then show ?case by simp
next
  case (3 r rp b)
  then have "filter (\<lambda>c. \<not> w c) x = []" by (simp add: list_all_iff)
  with 3 show ?case by (simp add: expand_def split: option.splits)
next
  case (4 r rp b c cs)
  note o = "4.prems"(1) and rp = "4.prems"(2) and x = "4.prems"(3)
  have fx: "filter (\<lambda>c. \<not> w c) x = []" using x by (simp add: list_all_iff)
  have ex: "expand rp t = x" for t using rp by (simp add: expand_def)
  show ?case
  proof (cases "match_at r b False (c # cs)")
    case None
    with 4(1) [OF None o rp x] show ?thesis by simp
  next
    case (Some st)
    note m = Some
    from match_at_eats [OF o m] obtain u
      where u: "c # cs = u @ rest st" "list_all w u" by blast
    show ?thesis
    proof (cases "length (rest st) < length (c # cs)")
      case True
      with u(1) have "u \<noteq> []" by auto
      from eaten_Cons [OF u(1) this u(2)]
      have wc: "w c" and tk: "list_all w (take (length cs - length (rest st)) cs)" by simp_all
      from 4(2) [OF m True o rp x tk] m True wc fx show ?thesis by (simp add: ex)
    next
      case False
      note f = False
      show ?thesis
      proof (cases "match_at r b True (c # cs)")
        case None
        with 4(3) [OF m f None o rp x] m f fx show ?thesis by (simp add: ex)
      next
        case (Some st')
        from match_at_eats [OF o Some] obtain u'
          where u': "c # cs = u' @ rest st'" "list_all w u'" "u' \<noteq> []" by blast
        from eaten_Cons [OF u'(1) u'(3) u'(2)]
        have wc: "w c" and tk: "list_all w (take (length cs - length (rest st')) cs)" by simp_all
        from 4(4) [OF m f Some o rp x tk] m f Some wc fx show ?thesis by (simp add: ex)
      qed
    qed
  qed
qed

lemma sub_from_prefix:
  "rp = Const '' '' \<Longrightarrow> CHR '' '' \<notin> set v \<Longrightarrow> f CHR '' '' = CHR '' '' \<Longrightarrow>
   prefix v (map f (sub_from r rp b n s)) \<Longrightarrow> prefix v (map f (drop n s))"
proof (induction r rp b n s arbitrary: v rule: sub_from.induct)
  case (1 r rp b n)
  then show ?case by simp
next
  case (2 r rp b n c cs)
  then show ?case by simp
next
  case (3 r rp b)
  then show ?case by (auto simp add: expand_def prefix_Cons split: option.splits)
next
  case (4 r rp b c cs)
  note rp = "4.prems"(1) and v = "4.prems"(2) and f = "4.prems"(3)
  have ex: "expand rp t = '' ''" for t using rp by (simp add: expand_def)
  show ?case
  proof (cases "match_at r b False (c # cs)")
    case None
    with "4.prems"(4) have "prefix v (f c # map f (sub_from r rp False 0 cs))" by simp
    then show ?thesis
    proof (cases v)
      case Nil
      then show ?thesis by simp
    next
      case (Cons a zs)
      with \<open>prefix v (f c # map f (sub_from r rp False 0 cs))\<close>
      have a: "a = f c" and p: "prefix zs (map f (sub_from r rp False 0 cs))" by simp_all
      from v Cons have "CHR '' '' \<notin> set zs" by simp
      from 4(1) [OF None rp this f p] have "prefix zs (map f cs)" by simp
      with a Cons show ?thesis by simp
    qed
  next
    case (Some st)
    then have "\<exists>ys. sub_from r rp b 0 (c # cs) = CHR '' '' # ys"
      by (auto simp add: ex split: option.splits)
    then obtain ys where "map f (sub_from r rp b 0 (c # cs)) = CHR '' '' # map f ys"
      using f by auto
    with "4.prems"(4) v have "v = []" by (cases v) auto
    then show ?thesis by simp
  qed
qed

lemma sublist_Cons_space:
  "CHR '' '' \<notin> set v \<Longrightarrow> sublist v (CHR '' '' # ys) \<Longrightarrow> sublist v ys"
  by (cases v) (auto simp add: sublist_Cons_right prefix_Cons)

lemma sub_from_sublist:
  "rp = Const '' '' \<Longrightarrow> CHR '' '' \<notin> set v \<Longrightarrow> f CHR '' '' = CHR '' '' \<Longrightarrow>
   sublist v (map f (sub_from r rp b n s)) \<Longrightarrow> sublist v (map f s)"
proof (induction r rp b n s rule: sub_from.induct)
  case (1 r rp b n)
  then show ?case by simp
next
  case (2 r rp b n c cs)
  then show ?case by (simp add: sublist_Cons_right)
next
  case (3 r rp b)
  then have "sublist v [] \<or> sublist v (CHR '' '' # [])"
    by (auto simp add: expand_def split: option.splits)
  with "3.prems"(2) have "sublist v []" using sublist_Cons_space by blast
  then show ?case by simp
next
  case (4 r rp b c cs)
  note rp = "4.prems"(1) and v = "4.prems"(2) and f = "4.prems"(3)
  have ex: "expand rp t = '' ''" for t using rp by (simp add: expand_def)
  have up: "sublist v (map f cs) \<Longrightarrow> sublist v (map f (c # cs))"
    by (simp add: sublist_Cons_right)
  have copy: "sublist v (map f (c # cs))"
    if n: "match_at r b ma (c # cs) = None \<Longrightarrow> sublist v (map f (sub_from r rp False 0 cs)) \<Longrightarrow>
           sublist v (map f cs)"
      and m: "match_at r b ma (c # cs) = None"
      and s: "sublist v (f c # map f (sub_from r rp False 0 cs))" for ma
  proof -
    from s consider "prefix v (f c # map f (sub_from r rp False 0 cs))"
      | "sublist v (map f (sub_from r rp False 0 cs))"
      by (auto simp add: sublist_Cons_right)
    then show ?thesis
    proof cases
      case 1
      show ?thesis
      proof (cases v)
        case Nil
        then show ?thesis by simp
      next
        case (Cons a zs)
        with 1 have a: "a = f c" and p: "prefix zs (map f (sub_from r rp False 0 cs))"
          by simp_all
        from v Cons have "CHR '' '' \<notin> set zs" by simp
        from sub_from_prefix [OF rp this f p] have "prefix zs (map f cs)" by simp
        with a Cons have "prefix v (map f (c # cs))" by simp
        then show ?thesis by (rule prefix_imp_sublist)
      qed
    next
      case 2
      with n m show ?thesis by (intro up) blast
    qed
  qed
  show ?case
  proof (cases "match_at r b False (c # cs)")
    case None
    with "4.prems"(4) have "sublist v (f c # map f (sub_from r rp False 0 cs))" by simp
    with copy [of False] 4(1) [OF None rp v f] None show ?thesis by blast
  next
    case (Some st)
    note m = Some
    show ?thesis
    proof (cases "length (rest st) < length (c # cs)")
      case True
      with m "4.prems"(4) f
      have "sublist v (CHR '' '' #
              map f (sub_from r rp False (length cs - length (rest st)) cs))"
        by (simp add: ex)
      with v have "sublist v (map f (sub_from r rp False (length cs - length (rest st)) cs))"
        by (rule sublist_Cons_space)
      with 4(2) [OF m True rp v f] show ?thesis by (intro up) blast
    next
      case False
      note nf = False
      show ?thesis
      proof (cases "match_at r b True (c # cs)")
        case None
        with m nf "4.prems"(4) f
        have "sublist v (CHR '' '' # f c # map f (sub_from r rp False 0 cs))"
          by (simp add: ex)
        with v have "sublist v (f c # map f (sub_from r rp False 0 cs))"
          by (rule sublist_Cons_space)
        with copy [of True] 4(3) [OF m nf None rp v f] None show ?thesis by blast
      next
        case (Some st')
        with m nf "4.prems"(4) f
        have "sublist v (CHR '' '' # CHR '' '' #
                map f (sub_from r rp False (length cs - length (rest st')) cs))"
          by (simp add: ex)
        with v have "sublist v (CHR '' '' #
                map f (sub_from r rp False (length cs - length (rest st')) cs))"
          by (rule sublist_Cons_space)
        with v have "sublist v (map f (sub_from r rp False (length cs - length (rest st')) cs))"
          by (rule sublist_Cons_space)
        with 4(4) [OF m nf Some rp v f] show ?thesis by (intro up) blast
      qed
    qed
  qed
qed

text \<open>A literal word matches only where the subject goes on with it.\<close>

lemma re_match_Chr:
  "re_match (Chr a) st k =
     (case rest st of [] \<Rightarrow> None
      | c # cs \<Rightarrow> if c = a then k (st\<lparr>at_start := False, rest := cs\<rparr>) else None)"
  by (simp add: Chr_def)

lemma re_match_Chr_i:
  "re_match (Chr_i a) st k =
     (case rest st of [] \<Rightarrow> None
      | c # cs \<Rightarrow> if py_lower_char c = py_lower_char a
                 then k (st\<lparr>at_start := False, rest := cs\<rparr>) else None)"
  by (simp add: Chr_i_def)

lemma re_match_Str:
  "\<not> prefix w (rest st) \<Longrightarrow> re_match (Seq (map Chr w)) st k = None"
proof (induction w arbitrary: st k)
  case Nil
  then show ?case by simp
next
  case (Cons a w)
  show ?case
  proof (cases "rest st")
    case Nil
    then show ?thesis by (simp add: re_match_Chr)
  next
    case (Cons c cs)
    show ?thesis
    proof (cases "c = a")
      case True
      with Cons Cons.prems have "\<not> prefix w (rest (st\<lparr>at_start := False, rest := cs\<rparr>))"
        by simp
      then have "re_match (Seq (map Chr w)) (st\<lparr>at_start := False, rest := cs\<rparr>) k = None"
        by (rule Cons.IH)
      with Cons True show ?thesis by (simp add: re_match_Chr)
    next
      case False
      with Cons show ?thesis by (simp add: re_match_Chr)
    qed
  qed
qed

lemma re_match_Str_i:
  "\<not> prefix (py_lower w) (py_lower (rest st)) \<Longrightarrow> re_match (Seq (map Chr_i w)) st k = None"
proof (induction w arbitrary: st k)
  case Nil
  then show ?case by (simp add: py_lower_def)
next
  case (Cons a w)
  show ?case
  proof (cases "rest st")
    case Nil
    then show ?thesis by (simp add: re_match_Chr_i)
  next
    case (Cons c cs)
    show ?thesis
    proof (cases "py_lower_char c = py_lower_char a")
      case True
      with Cons Cons.prems
      have "\<not> prefix (py_lower w) (py_lower (rest (st\<lparr>at_start := False, rest := cs\<rparr>)))"
        by (simp add: py_lower_def)
      then have "re_match (Seq (map Chr_i w)) (st\<lparr>at_start := False, rest := cs\<rparr>) k = None"
        by (rule Cons.IH)
      with Cons True show ?thesis by (simp add: re_match_Chr_i)
    next
      case False
      with Cons show ?thesis by (simp add: re_match_Chr_i)
    qed
  qed
qed

lemma py_strip_filter:
  "filter (\<lambda>c. \<not> py_isspace c) (py_strip s) = filter (\<lambda>c. \<not> py_isspace c) s"
proof -
  have d: "filter (\<lambda>c. \<not> P c) (dropWhile P xs) = filter (\<lambda>c. \<not> P c) xs"
    for P :: "char \<Rightarrow> bool" and xs
    by (induction xs) simp_all
  show ?thesis unfolding py_strip_def by (simp add: d flip: rev_filter)
qed

text \<open>The patterns of the normaliser.\<close>

lemma py_lower_char_colon: "\<forall>c. py_lower_char c = py_lower_char CHR '':'' \<longrightarrow> c = CHR '':''"
  by code_simp

lemma py_isspace_newline: "py_isspace (CHR 0x0A)"
  by code_simp

lemma py_lower_char_space: "py_lower_char CHR '' '' = CHR '' ''"
  by code_simp

lemma must_leave_url: "must_leave (\<lambda>c. c \<notin> set '':[*~`'') url_re"
  by (simp add: url_re_def Str_def Chr_def)

lemma must_leave_link: "must_leave (\<lambda>c. c \<notin> set '':[*~`'') link_re"
  by (simp add: link_re_def Chr_def)

lemma must_leave_bold: "must_leave (\<lambda>c. c \<notin> set '':[*~`'') bold_re"
  by (simp add: bold_re_def Str_def Chr_def)

lemma must_leave_italic: "must_leave (\<lambda>c. c \<notin> set '':[*~`'') italic_re"
  by (simp add: italic_re_def Str_def Chr_def)

lemma must_leave_strike: "must_leave (\<lambda>c. c \<notin> set '':[*~`'') strike_re"
  by (simp add: strike_re_def Str_def Chr_def)

lemma must_leave_code: "must_leave (\<lambda>c. c \<notin> set '':[*~`'') code_re"
  by (simp add: code_re_def Str_def Chr_def)

lemma must_leave_emoji: "must_leave (\<lambda>c. True) emoji_re"
  by (simp add: emoji_re_def Plus_def emoji_char_code)

lemma must_leave_iso: "must_leave (\<lambda>c. c \<notin> set '':[*~`'') iso_timestamp_re"
  by (simp add: iso_timestamp_re_def Chr_def)

lemma must_leave_clock: "must_leave (\<lambda>c. c \<notin> set '':[*~`'') clock_re"
  by (simp add: clock_re_def Chr_def)

lemma must_leave_prefix: "must_leave (\<lambda>c. c \<notin> set '':[*~`'') prefix_re"
  using py_lower_char_colon by (auto simp add: prefix_re_def Chr_i_def)

lemma only_eats_newlines: "only_eats py_isspace newlines_re"
  by (simp add: newlines_re_def Plus_def Chr_def py_isspace_newline)

lemma only_eats_spaces: "only_eats py_isspace spaces_re"
  by (simp add: spaces_re_def Plus_def space_def)


lemma prefix_suffix_sublist: "prefix w u \<Longrightarrow> suffix u s \<Longrightarrow> sublist w s"
  by (auto simp add: prefix_def suffix_def sublist_def)

lemma timezone_no_match:
  assumes "\<forall>w \<in> set [''UTC'', ''GMT'', ''EST'', ''PST'', ''CST'', ''MST'']. \<not> py_in w s"
    and "suffix u s"
  shows "match_at timezone_re b ma u = None"
proof -
  have "\<not> prefix w u" if "w \<in> set [''UTC'', ''GMT'', ''EST'', ''PST'', ''CST'', ''MST'']" for w
    using assms that prefix_suffix_sublist [of w u s] unfolding py_in_def by blast
  then have "re_match (Str w) \<lparr>at_start = b, rest = u, group1 = None\<rparr> k = None"
    if "w \<in> set [''UTC'', ''GMT'', ''EST'', ''PST'', ''CST'', ''MST'']" for w k
    unfolding Str_def using that by (intro re_match_Str) simp
  then show ?thesis by (simp add: match_at_def timezone_re_def)
qed

lemma py_lower_crosspost:
  "py_lower ''x-post'' = ''x-post''" "py_lower ''crosspost'' = ''crosspost''"
  "py_lower ''cross-post'' = ''cross-post''"
  by code_simp+

lemma crosspost_no_match:
  assumes "\<forall>w \<in> set [''x-post'', ''crosspost'', ''cross-post'']. \<not> py_in w (py_lower s)"
    and "suffix u s"
  shows "match_at crosspost_re b ma u = None"
proof -
  have np: "\<not> prefix (py_lower w) (py_lower v)"
    if "w \<in> set [''x-post'', ''crosspost'', ''cross-post'']" and "suffix v u" for w v
  proof
    assume "prefix (py_lower w) (py_lower v)"
    moreover from that(2) assms(2) have "suffix (py_lower v) (py_lower s)"
      by (auto simp add: suffix_def py_lower_def)
    ultimately have "sublist (py_lower w) (py_lower s)" by (rule prefix_suffix_sublist)
    moreover have "py_lower w = w" using that(1) py_lower_crosspost by auto
    ultimately show False using assms(1) that(1) unfolding py_in_def by auto
  qed
  have w: "re_match (Str_i w) st k = None"
    if "w \<in> set [''x-post'', ''crosspost'', ''cross-post'']" and "suffix (rest st) u" for w st k
    unfolding Str_i_def using np [OF that] by (rule re_match_Str_i)
  let ?tail = "Seq [Star space, Star dot, Eol]"
  have g: "re_match (Cat (Grp (Alts [Str_i ''x-post'', Str_i ''crosspost'', Str_i ''cross-post''])) ?tail)
             st k = None" if "suffix (rest st) u" for st k
    using that by (simp add: w)
  have "re_match (Cat (Star space)
          (Cat (Grp (Alts [Str_i ''x-post'', Str_i ''crosspost'', Str_i ''cross-post''])) ?tail))
          \<lparr>at_start = b, rest = u, group1 = None\<rparr> k = None" for k
    unfolding re_match.simps(3) [of "Star space"]
  proof (rule re_match_fail)
    fix st' :: mstate
    assume "suffix (rest st') (rest \<lparr>at_start = b, rest = u, group1 = None\<rparr>)"
    then have "suffix (rest st') u" by simp
    then show "re_match (Cat (Grp (Alts [Str_i ''x-post'', Str_i ''crosspost'', Str_i ''cross-post''])) ?tail)
                 st' k = None"
      by (rule g)
  qed
  then show ?thesis by (simp add: match_at_def crosspost_re_def)
qed

lemma py_isspace_space: "py_isspace CHR '' ''"
  by code_simp

lemma py_isspace_period: "\<not> py_isspace CHR ''.''"
  by code_simp

text \<open>
  Replacing runs of whitespace by a blank keeps the other characters, brings in no
  character but the blank, and makes no new word.
\<close>

lemma whitespace_step:
  assumes o: "only_eats py_isspace r"
    and p: "list_all (\<lambda>c. c \<notin> set '':[*~`'') s"
    and tz: "\<forall>w \<in> set [''UTC'', ''GMT'', ''EST'', ''PST'', ''CST'', ''MST'']. \<not> py_in w s"
    and xp: "\<forall>w \<in> set [''x-post'', ''crosspost'', ''cross-post'']. \<not> py_in w (py_lower s)"
  shows "list_all (\<lambda>c. c \<notin> set '':[*~`'') (re_sub r (Const '' '') s)"
    and "\<forall>w \<in> set [''UTC'', ''GMT'', ''EST'', ''PST'', ''CST'', ''MST''].
           \<not> py_in w (re_sub r (Const '' '') s)"
    and "\<forall>w \<in> set [''x-post'', ''crosspost'', ''cross-post''].
           \<not> py_in w (py_lower (re_sub r (Const '' '') s))"
    and "filter (\<lambda>c. \<not> py_isspace c) (re_sub r (Const '' '') s) = filter (\<lambda>c. \<not> py_isspace c) s"
proof -
  have "set (re_sub r (Const '' '') s) \<subseteq> set s \<union> set '' ''"
    unfolding re_sub_def by (rule sub_from_chars) simp
  with p show "list_all (\<lambda>c. c \<notin> set '':[*~`'') (re_sub r (Const '' '') s)"
    by (auto simp add: list_all_iff)
next
  show "\<forall>w \<in> set [''UTC'', ''GMT'', ''EST'', ''PST'', ''CST'', ''MST''].
           \<not> py_in w (re_sub r (Const '' '') s)"
  proof (intro ballI notI)
    fix w assume w: "w \<in> set [''UTC'', ''GMT'', ''EST'', ''PST'', ''CST'', ''MST'']"
      and "py_in w (re_sub r (Const '' '') s)"
    then have a: "sublist w (map (\<lambda>x. x) (sub_from r (Const '' '') True 0 s))"
      by (simp add: py_in_def re_sub_def)
    have sp: "CHR '' '' \<notin> set w" using w by auto
    have "sublist w (map (\<lambda>x. x) s)"
      by (rule sub_from_sublist [OF refl sp _ a]) simp
    with tz w show False by (auto simp add: py_in_def)
  qed
next
  show "\<forall>w \<in> set [''x-post'', ''crosspost'', ''cross-post''].
           \<not> py_in w (py_lower (re_sub r (Const '' '') s))"
  proof (intro ballI notI)
    fix w assume w: "w \<in> set [''x-post'', ''crosspost'', ''cross-post'']"
      and "py_in w (py_lower (re_sub r (Const '' '') s))"
    then have a: "sublist w (map py_lower_char (sub_from r (Const '' '') True 0 s))"
      by (simp add: py_in_def re_sub_def py_lower_def)
    have sp: "CHR '' '' \<notin> set w" using w by auto
    have "sublist w (map py_lower_char s)"
      by (rule sub_from_sublist [OF refl sp py_lower_char_space a])
    with xp w show False by (auto simp add: py_in_def py_lower_def)
  qed
next
  show "filter (\<lambda>c. \<not> py_isspace c) (re_sub r (Const '' '') s) = filter (\<lambda>c. \<not> py_isspace c) s"
    unfolding re_sub_def using o refl by (rule sub_from_filter) (simp_all add: py_isspace_space)
qed

lemma re_sub_no_match:
  "(\<And>u b ma. suffix u s \<Longrightarrow> match_at r b ma u = None) \<Longrightarrow> re_sub r rp s = s"
  unfolding re_sub_def by (rule sub_from_no_match)

lemma stripped_text_keeps:
  assumes p: "list_all (\<lambda>c. c \<notin> set '':[*~`'') title"
    and tz: "\<forall>w \<in> set [''UTC'', ''GMT'', ''EST'', ''PST'', ''CST'', ''MST'']. \<not> py_in w title"
    and xp: "\<forall>w \<in> set [''x-post'', ''crosspost'', ''cross-post'']. \<not> py_in w (py_lower title)"
    and b: "py_strip selftext = []"
  shows "filter (\<lambda>c. \<not> py_isspace c) (stripped_text title selftext) =
         filter (\<lambda>c. \<not> py_isspace c) title"
proof -
  let ?s7 = "re_sub newlines_re (Const '' '') title"
  let ?s8 = "re_sub spaces_re (Const '' '') ?s7"
  note s7 = whitespace_step [OF only_eats_newlines p tz xp]
  note s8 = whitespace_step [OF only_eats_spaces s7(1,2,3)]
  have e1: "re_sub url_re rp title = title" for rp
    using must_leave_url p by (rule re_sub_must_leave)
  have e2: "re_sub link_re rp title = title" for rp
    using must_leave_link p by (rule re_sub_must_leave)
  have e3: "re_sub bold_re rp title = title" for rp
    using must_leave_bold p by (rule re_sub_must_leave)
  have e4: "re_sub italic_re rp title = title" for rp
    using must_leave_italic p by (rule re_sub_must_leave)
  have e5: "re_sub strike_re rp title = title" for rp
    using must_leave_strike p by (rule re_sub_must_leave)
  have e6: "re_sub code_re rp title = title" for rp
    using must_leave_code p by (rule re_sub_must_leave)
  have e9: "re_sub emoji_re rp ?s8 = ?s8" for rp
    using must_leave_emoji by (rule re_sub_must_leave) (simp add: list_all_iff)
  have e10: "re_sub iso_timestamp_re rp ?s8 = ?s8" for rp
    using must_leave_iso s8(1) by (rule re_sub_must_leave)
  have e11: "re_sub clock_re rp ?s8 = ?s8" for rp
    using must_leave_clock s8(1) by (rule re_sub_must_leave)
  have e12: "re_sub timezone_re rp ?s8 = ?s8" for rp
  proof (rule re_sub_no_match)
    fix u :: string and b ma :: bool assume "suffix u ?s8"
    with s8(2) show "match_at timezone_re b ma u = None" by (rule timezone_no_match)
  qed
  have e13: "re_sub prefix_re rp ?s8 = ?s8" for rp
    using must_leave_prefix s8(1) by (rule re_sub_must_leave)
  have e14: "re_sub crosspost_re rp ?s8 = ?s8" for rp
  proof (rule re_sub_no_match)
    fix u :: string and b ma :: bool assume "suffix u ?s8"
    with s8(3) show "match_at crosspost_re b ma u = None" by (rule crosspost_no_match)
  qed
  have "stripped_text title selftext = py_strip ?s8"
    unfolding stripped_text_def Let_def
    by (simp only: b simp_thms if_False e1 e2 e3 e4 e5 e6 e9 e10 e11 e12 e13 e14)
  then show ?thesis by (simp only: py_strip_filter s8(4) s7(4))
qed

lemma py_strip_last: "py_strip s \<noteq> [] \<Longrightarrow> \<not> py_isspace (last (py_strip s))"
proof -
  assume n: "py_strip s \<noteq> []"
  let ?ys = "rev (dropWhile py_isspace s)"
  from n have d: "dropWhile py_isspace ?ys \<noteq> []" by (simp add: py_strip_def)
  then have "\<not> py_isspace (hd (dropWhile py_isspace ?ys))" by (rule hd_dropWhile)
  moreover have "last (py_strip s) = hd (dropWhile py_isspace ?ys)"
    using d by (simp add: py_strip_def last_rev)
  ultimately show ?thesis by simp
qed

lemma last_filter: "xs \<noteq> [] \<Longrightarrow> P (last xs) \<Longrightarrow> last (filter P xs) = last xs"
  by (cases xs rule: rev_cases) simp_all

lemma stripped_text_last:
  "stripped_text title selftext \<noteq> [] \<Longrightarrow> \<not> py_isspace (last (stripped_text title selftext))"
  unfolding stripped_text_def Let_def by (rule py_strip_last)


lemma plain_title_example:
  "set ''Tornado hits Texas'' \<inter> set '':[*~`'' = {}"
  "\<forall>w \<in> set [''UTC'', ''GMT'', ''EST'', ''PST'', ''CST'', ''MST'']. \<not> py_in w ''Tornado hits Texas''"
  "\<forall>w \<in> set [''x-post'', ''crosspost'', ''cross-post''].
     \<not> py_in w (py_lower ''Tornado hits Texas'')"
  "\<exists>c \<in> set ''Tornado hits Texas''. \<not> py_isspace c"
  "py_strip [] = []"
  by code_simp+

lemma plain_title_characters:
  "filter (\<lambda>c. \<not> py_isspace c) ''Tornado hits Texas'' @
     (if last (filter (\<lambda>c. \<not> py_isspace c) ''Tornado hits Texas'') \<in> set ''.!?''
      then [] else ''.'') = ''TornadohitsTexas.''"
  by code_simp



end
